theory Spec2Isabelle
  imports Main
begin

section \<open>Errors (pkg/base/errors.go and the errors the core passes on)\<close>

text \<open>
  Go's \<open>error\<close> interface values that reach the iterator and the export poller.
  \<open>TransportError\<close> stands for whatever the HTTP client returns (APIError,
  ConnectionError, ...): the core never inspects it. \<open>ContextError\<close> is the value of
  \<open>ctx.Err()\<close>. \<open>UnmarshalError\<close> is a failure of \<open>json.Unmarshal\<close>.
  \<open>TransformError e\<close> is \<open>fmt.Errorf("failed to transform page data: %w", e)\<close>.
\<close>

datatype ctx_err = Canceled | DeadlineExceeded

datatype error =
    TransportError string
  | ValidationError string string
  | ExportError string string string
  | ContextError ctx_err
  | UnmarshalError string
  | TransformError error

section \<open>The paginated iterator (package base)\<close>

record PaginationInfo =
  Total' :: int
  Limit :: int
  Offset :: int

text \<open>
  A \<open>PageFetcher\<close> is a Go closure: it may own state and talk to the outside world.
  The model passes that state explicitly (type \<open>'s\<close>). Its Go result
  \<open>(data, pagination, err)\<close> is read by the iterator as: \<open>err \<noteq> nil\<close> (the other two
  are then ignored), or a page with an optional (nil or not) \<open>*PaginationInfo\<close>.
  The outer \<open>option\<close> is \<open>None\<close> when the call does not return (it blocks forever or
  panics). The raw page data (\<open>json.RawMessage\<close>) is of an arbitrary type \<open>'d\<close>.
\<close>

type_synonym 'd page_reply = "error + 'd \<times> PaginationInfo option"

type_synonym ('d, 's) PageFetcher = "'s \<Rightarrow> int \<Rightarrow> int \<Rightarrow> ('d page_reply \<times> 's) option"

type_synonym ('d, 'a) ItemTransformer = "'d \<Rightarrow> error + 'a list"

text \<open>
  The struct \<open>Iterator[T]\<close>. The fields \<open>fetcher\<close> and \<open>transformer\<close> never change and
  are passed to the operations as arguments; \<open>ctx\<close> is only handed to the fetcher and
  is part of the fetcher's state \<open>fstate\<close>. \<open>done\<close> is written \<open>done'\<close>,
  \<open>total\<close> is written \<open>total'\<close>. \<open>pageIndex\<close> only ever holds \<open>0\<close> or a
  successor, so it is a \<open>nat\<close>; the other counters are Go \<open>int\<close>s (64 bits, never near
  overflow here: they count items held in memory), modelled as \<open>int\<close>.
\<close>

record ('a, 's) Iterator =
  fstate :: 's
  limit :: int
  offset :: int
  total' :: int
  page :: "'a list"
  pageIndex :: nat
  count :: int
  maxPages :: int
  pagesLoaded :: int
  done' :: bool
  err :: "error option"
  current :: 'a

datatype IteratorOption = WithLimit int | WithOffset int | WithMaxPages int

fun apply_option :: "IteratorOption \<Rightarrow> ('a, 's) Iterator \<Rightarrow> ('a, 's) Iterator" where
  "apply_option (WithLimit l) it = it\<lparr>limit := l\<rparr>"
| "apply_option (WithOffset off) it = it\<lparr>offset := off\<rparr>"
| "apply_option (WithMaxPages m) it = it\<lparr>maxPages := m\<rparr>"

text \<open>
  \<open>NewIterator\<close>: \<open>zero\<close> is the zero value of \<open>T\<close> (the initial \<open>current\<close>), \<open>s0\<close> the
  initial state of the fetcher closure. The options are applied in order.
\<close>

definition NewIterator :: "'a \<Rightarrow> 's \<Rightarrow> IteratorOption list \<Rightarrow> ('a, 's) Iterator" where
  "NewIterator zero s0 opts =
     foldl (\<lambda>it opt. apply_option opt it)
       \<lparr>fstate = s0, limit = 100, offset = 0, total' = -1, page = [], pageIndex = 0,
        count = 0, maxPages = 0, pagesLoaded = 0, done' = False, err = None,
        current = zero\<rparr>
       opts"

definition fetchNextPage ::
  "('d, 's) PageFetcher \<Rightarrow> ('d, 'a) ItemTransformer \<Rightarrow> ('a, 's) Iterator
     \<Rightarrow> (bool \<times> ('a, 's) Iterator) option" where
  "fetchNextPage fetcher transformer it =
     (if maxPages it > 0 \<and> pagesLoaded it \<ge> maxPages it then Some (False, it\<lparr>done' := True\<rparr>)
      else if total' it \<ge> 0 \<and> offset it \<ge> total' it then Some (False, it\<lparr>done' := True\<rparr>)
      else
        (case fetcher (fstate it) (offset it) (limit it) of
           None \<Rightarrow> None
         | Some (Inl e, s') \<Rightarrow> Some (False, it\<lparr>fstate := s', err := Some e\<rparr>)
         | Some (Inr (data, pagination), s') \<Rightarrow>
             (let it1 = (case pagination of
                           None \<Rightarrow> it\<lparr>fstate := s'\<rparr>
                         | Some p \<Rightarrow> it\<lparr>fstate := s', total' := Total' p\<rparr>)
              in case transformer data of
                   Inl e \<Rightarrow> Some (False, it1\<lparr>err := Some (TransformError e)\<rparr>)
                 | Inr items \<Rightarrow>
                     if length items = 0 then Some (False, it1\<lparr>done' := True\<rparr>)
                     else Some (True,
                            it1\<lparr>page := items, pageIndex := 1,
                                offset := offset it1 + int (length items),
                                pagesLoaded := pagesLoaded it1 + 1,
                                current := items ! 0,
                                count := count it1 + 1\<rparr>))))"

definition Next ::
  "('d, 's) PageFetcher \<Rightarrow> ('d, 'a) ItemTransformer \<Rightarrow> ('a, 's) Iterator
     \<Rightarrow> (bool \<times> ('a, 's) Iterator) option" where
  "Next fetcher transformer it =
     (if done' it \<or> err it \<noteq> None then Some (False, it)
      else if total' it \<ge> 0 \<and> count it \<ge> total' it then Some (False, it\<lparr>done' := True\<rparr>)
      else if pageIndex it \<ge> length (page it) then fetchNextPage fetcher transformer it
      else Some (True, it\<lparr>current := page it ! pageIndex it,
                          pageIndex := pageIndex it + 1,
                          count := count it + 1\<rparr>))"

definition Item :: "('a, 's) Iterator \<Rightarrow> 'a" where
  "Item it = current it"

definition Err :: "('a, 's) Iterator \<Rightarrow> error option" where
  "Err it = err it"

text \<open>
  The loop \<open>for it.Next() { results = append(results, it.Item()) }\<close> shared by \<open>All\<close>
  and by the callers' own loops. It need not end (a fetcher can serve pages forever),
  so it runs on fuel: \<open>None\<close> is "has not returned yet".
\<close>

fun collect :: "nat \<Rightarrow> ('d, 's) PageFetcher \<Rightarrow> ('d, 'a) ItemTransformer \<Rightarrow> ('a, 's) Iterator
     \<Rightarrow> 'a list \<Rightarrow> ('a list \<times> ('a, 's) Iterator) option" where
  "collect 0 fetcher transformer it results = None"
| "collect (Suc n) fetcher transformer it results =
     (case Next fetcher transformer it of
        None \<Rightarrow> None
      | Some (False, it') \<Rightarrow> Some (results, it')
      | Some (True, it') \<Rightarrow> collect n fetcher transformer it' (results @ [Item it']))"

text \<open>
  \<open>All\<close> (written \<open>All'\<close>) returns Go's pair \<open>([]T, error)\<close>, here with the iterator
  as it is left. A nil slice is the empty list.
\<close>

definition All' :: "nat \<Rightarrow> ('d, 's) PageFetcher \<Rightarrow> ('d, 'a) ItemTransformer \<Rightarrow> ('a, 's) Iterator
     \<Rightarrow> (('a list \<times> error option) \<times> ('a, 's) Iterator) option" where
  "All' fuel fetcher transformer it =
     (case collect fuel fetcher transformer it [] of
        None \<Rightarrow> None
      | Some (results, it') \<Rightarrow>
          if err it' \<noteq> None then Some (([], err it'), it') else Some ((results, None), it'))"

text \<open>
  \<open>Take(n)\<close>: the loop \<open>for i := 0; i < n && it.Next(); i++\<close> runs at most \<open>n\<close> times;
  \<open>take_loop\<close> counts the iterations left.
\<close>

fun take_loop :: "nat \<Rightarrow> ('d, 's) PageFetcher \<Rightarrow> ('d, 'a) ItemTransformer \<Rightarrow> ('a, 's) Iterator
     \<Rightarrow> 'a list \<Rightarrow> ('a list \<times> ('a, 's) Iterator) option" where
  "take_loop 0 fetcher transformer it results = Some (results, it)"
| "take_loop (Suc k) fetcher transformer it results =
     (case Next fetcher transformer it of
        None \<Rightarrow> None
      | Some (False, it') \<Rightarrow> Some (results, it')
      | Some (True, it') \<Rightarrow> take_loop k fetcher transformer it' (results @ [Item it']))"

definition Take :: "int \<Rightarrow> ('d, 's) PageFetcher \<Rightarrow> ('d, 'a) ItemTransformer \<Rightarrow> ('a, 's) Iterator
     \<Rightarrow> (('a list \<times> error option) \<times> ('a, 's) Iterator) option" where
  "Take n fetcher transformer it =
     (case take_loop (nat n) fetcher transformer it [] of
        None \<Rightarrow> None
      | Some (results, it') \<Rightarrow>
          if err it' \<noteq> None then Some (([], err it'), it') else Some ((results, None), it'))"

subsection \<open>Fetchers of the tests and observers used in the statements\<close>

text \<open>
  Go's \<open>int\<close> has 64 bits here and its \<open>+\<close> wraps around: \<open>wrap64 x\<close> is the value
  of type \<open>int\<close> that the mathematical result \<open>x\<close> of an addition comes out as.
\<close>

definition wrap64 :: "int \<Rightarrow> int" where
  "wrap64 x = (x + 9223372036854775808) mod 18446744073709551616 - 9223372036854775808"

text \<open>
  The fetcher of \<open>TestIterator\<close> (\<open>createFetcher\<close>), over a fixed slice \<open>allItems\<close>.
  \<open>marshal\<close> is \<open>json.Marshal\<close> on a slice of items. The sum \<open>offset + limit\<close> wraps
  around. The slice expression \<open>allItems[offset:end]\<close> panics when \<open>offset < 0\<close> or
  \<open>end < offset\<close>: the call does not return.
\<close>

definition createFetcher :: "('a list \<Rightarrow> 'd) \<Rightarrow> 'a list \<Rightarrow> ('d, unit) PageFetcher" where
  "createFetcher marshal allItems = (\<lambda>u offset limit.
     let end0 = wrap64 (offset + limit);
         end1 = (if end0 > int (length allItems) then int (length allItems) else end0)
     in if offset \<ge> int (length allItems)
        then Some (Inr (marshal [],
                        Some \<lparr>Total' = int (length allItems), Limit = limit, Offset = offset\<rparr>), u)
        else if offset < 0 \<or> end1 < offset then None
        else Some (Inr (marshal (take (nat (end1 - offset)) (drop (nat offset) allItems)),
                        Some \<lparr>Total' = int (length allItems), Limit = limit, Offset = offset\<rparr>), u))"

text \<open>
  A mock fetcher that plays back a fixed list of replies, one per call, whatever the
  offset and limit; when the list is used up the call does not return.
\<close>

fun scripted :: "('d, 'd page_reply list) PageFetcher" where
  "scripted [] off lim = None"
| "scripted (r # rs) off lim = Some (r, rs)"

text \<open>
  A mock fetcher that records the \<open>(offset, limit)\<close> of every call and answers with the
  one-item page holding just that pair, and no pagination info.
\<close>

definition recording :: "((int \<times> int) list, (int \<times> int) list) PageFetcher" where
  "recording calls off lim = Some (Inr ([(off, lim)], None), calls @ [(off, lim)])"

text \<open>
  \<open>logged fetcher\<close> behaves as \<open>fetcher\<close> and keeps, beside the fetcher's own state,
  the list of the replies it has given so far: reply \<open>k\<close> of the list is page \<open>k\<close>.
\<close>

definition logged :: "('d, 's) PageFetcher \<Rightarrow> ('d, 's \<times> 'd page_reply list) PageFetcher" where
  "logged fetcher = (\<lambda>(s, log) off lim.
     case fetcher s off lim of
       None \<Rightarrow> None
     | Some (r, s') \<Rightarrow> Some (r, (s', log @ [r])))"

text \<open>The items a reply decodes to, and the error the iterator records for a reply.\<close>

fun reply_items :: "('d, 'a) ItemTransformer \<Rightarrow> 'd page_reply \<Rightarrow> 'a list" where
  "reply_items transformer (Inl e) = []"
| "reply_items transformer (Inr (data, pagination)) =
     (case transformer data of Inl e \<Rightarrow> [] | Inr items \<Rightarrow> items)"

fun reply_error :: "('d, 'a) ItemTransformer \<Rightarrow> 'd page_reply \<Rightarrow> error option" where
  "reply_error transformer (Inl e) = Some e"
| "reply_error transformer (Inr (data, pagination)) =
     (case transformer data of Inl e \<Rightarrow> Some (TransformError e) | Inr items \<Rightarrow> None)"

text \<open>
  \<open>pulls k\<close>: \<open>k\<close> calls of \<open>Next\<close> in a row; the result of each call with the value
  of \<open>Item()\<close> after it, and the iterator at the end.
\<close>

fun pulls :: "nat \<Rightarrow> ('d, 's) PageFetcher \<Rightarrow> ('d, 'a) ItemTransformer \<Rightarrow> ('a, 's) Iterator
     \<Rightarrow> ((bool \<times> 'a) list \<times> ('a, 's) Iterator) option" where
  "pulls 0 fetcher transformer it = Some ([], it)"
| "pulls (Suc k) fetcher transformer it =
     (case Next fetcher transformer it of
        None \<Rightarrow> None
      | Some (b, it') \<Rightarrow>
          (case pulls k fetcher transformer it' of
             None \<Rightarrow> None
           | Some (obs, it'') \<Rightarrow> Some ((b, Item it') # obs, it'')))"

text \<open>
  Whether a call of \<open>Next\<close> on \<open>it\<close> reaches the call of the fetcher: the guards of
  \<open>Next\<close> and \<open>fetchNextPage\<close> that come before it.
\<close>

definition calls_fetcher :: "('a, 's) Iterator \<Rightarrow> bool" where
  "calls_fetcher it =
     (\<not> (done' it \<or> err it \<noteq> None) \<and> \<not> (total' it \<ge> 0 \<and> count it \<ge> total' it) \<and>
      pageIndex it \<ge> length (page it) \<and>
      \<not> (maxPages it > 0 \<and> pagesLoaded it \<ge> maxPages it) \<and>
      \<not> (total' it \<ge> 0 \<and> offset it \<ge> total' it))"

section \<open>Exports (package tio): the poller and the export-backed iterators\<close>

text \<open>
  The HTTP client is outside the core. The model is a mock backend: the replies the
  client will give to the successive submissions and status polls, the outcome of each
  wait between two polls (the \<open>select\<close> between \<open>ctx.Done()\<close> and the timer), the
  chunk served for each export type, job identifier and chunk identifier, and the list
  of the requests made so far. A reply list that is used up means the call does not
  return. Of \<open>ExportStatus\<close> only the fields the core reads are kept; of the request
  structs only the field that gets a default.
\<close>

record ExportStatus =
  Status :: string
  ChunksAvailable :: "int list"

datatype wait_signal = TimerFired | CtxDone ctx_err

datatype request =
    Post string int
  | GetStatus string string
  | GetChunk string string int
  | PollWait int

record 'd world =
  post_replies :: "(error + string) list"
  status_replies :: "(error + ExportStatus) list"
  wait_signals :: "wait_signal list"
  chunk_store :: "string \<Rightarrow> string \<Rightarrow> int \<Rightarrow> error + 'd"
  requests :: "request list"

definition client_Post :: "string \<Rightarrow> int \<Rightarrow> 'd world \<Rightarrow> ((error + string) \<times> 'd world) option" where
  "client_Post path body w =
     (case post_replies w of
        [] \<Rightarrow> None
      | r # rs \<Rightarrow> Some (r, w\<lparr>post_replies := rs, requests := requests w @ [Post path body]\<rparr>))"

definition client_GetStatus ::
  "string \<Rightarrow> string \<Rightarrow> 'd world \<Rightarrow> ((error + ExportStatus) \<times> 'd world) option" where
  "client_GetStatus exportType exportUUID w =
     (case status_replies w of
        [] \<Rightarrow> None
      | r # rs \<Rightarrow> Some (r, w\<lparr>status_replies := rs,
                             requests := requests w @ [GetStatus exportType exportUUID]\<rparr>))"

definition client_Download ::
  "string \<Rightarrow> string \<Rightarrow> int \<Rightarrow> 'd world \<Rightarrow> ((error + 'd) \<times> 'd world) option" where
  "client_Download exportType exportUUID chunkID w =
     Some (chunk_store w exportType exportUUID chunkID,
           w\<lparr>requests := requests w @ [GetChunk exportType exportUUID chunkID]\<rparr>)"

definition select_wait :: "int \<Rightarrow> 'd world \<Rightarrow> (wait_signal \<times> 'd world) option" where
  "select_wait pollInterval w =
     (case wait_signals w of
        [] \<Rightarrow> None
      | sg # sgs \<Rightarrow> Some (sg, w\<lparr>wait_signals := sgs, requests := requests w @ [PollWait pollInterval]\<rparr>))"

record ExportAssetsRequest =
  ChunkSize :: int

record ExportVulnsRequest =
  NumAssets :: int

definition AssetsExport ::
  "ExportAssetsRequest option \<Rightarrow> 'd world \<Rightarrow> ((error + string) \<times> 'd world) option" where
  "AssetsExport req w =
     (let req1 = (case req of None \<Rightarrow> \<lparr>ChunkSize = 0\<rparr> | Some r \<Rightarrow> r);
          req2 = (if ChunkSize req1 = 0 then req1\<lparr>ChunkSize := 1000\<rparr> else req1)
      in client_Post ''assets/export'' (ChunkSize req2) w)"

definition VulnsExport ::
  "ExportVulnsRequest option \<Rightarrow> 'd world \<Rightarrow> ((error + string) \<times> 'd world) option" where
  "VulnsExport req w =
     (let req1 = (case req of None \<Rightarrow> \<lparr>NumAssets = 0\<rparr> | Some r \<Rightarrow> r);
          req2 = (if NumAssets req1 = 0 then req1\<lparr>NumAssets := 500\<rparr> else req1)
      in client_Post ''vulns/export'' (NumAssets req2) w)"

definition AssetsExportStatus ::
  "string \<Rightarrow> 'd world \<Rightarrow> ((error + ExportStatus) \<times> 'd world) option" where
  "AssetsExportStatus exportUUID w = client_GetStatus ''assets'' exportUUID w"

definition VulnsExportStatus ::
  "string \<Rightarrow> 'd world \<Rightarrow> ((error + ExportStatus) \<times> 'd world) option" where
  "VulnsExportStatus exportUUID w = client_GetStatus ''vulns'' exportUUID w"

definition ComplianceExportStatus ::
  "string \<Rightarrow> 'd world \<Rightarrow> ((error + ExportStatus) \<times> 'd world) option" where
  "ComplianceExportStatus exportUUID w = client_GetStatus ''compliance'' exportUUID w"

text \<open>\<open>io.ReadAll\<close> on a \<open>bytesReader\<close> returns its bytes and no error.\<close>

definition AssetsExportChunk ::
  "string \<Rightarrow> int \<Rightarrow> 'd world \<Rightarrow> ((error + 'd) \<times> 'd world) option" where
  "AssetsExportChunk exportUUID chunkID w = client_Download ''assets'' exportUUID chunkID w"

definition VulnsExportChunk ::
  "string \<Rightarrow> int \<Rightarrow> 'd world \<Rightarrow> ((error + 'd) \<times> 'd world) option" where
  "VulnsExportChunk exportUUID chunkID w = client_Download ''vulns'' exportUUID chunkID w"

text \<open>The status poll of \<open>WaitForExport\<close>'s first \<open>switch\<close>; \<open>None\<close> is its default case.\<close>

definition poll_status ::
  "string \<Rightarrow> string \<Rightarrow> 'd world \<Rightarrow> ((error + ExportStatus) \<times> 'd world) option option" where
  "poll_status exportType exportUUID w =
     (if exportType = ''assets'' then Some (AssetsExportStatus exportUUID w)
      else if exportType = ''vulns'' then Some (VulnsExportStatus exportUUID w)
      else if exportType = ''compliance'' then Some (ComplianceExportStatus exportUUID w)
      else None)"

text \<open>
  \<open>WaitForExport\<close>. Durations are nanoseconds. Every round of the loop takes one
  status reply from the backend, so the recursion ends with the reply list; the result
  \<open>None\<close> is a call that is still waiting when the recorded replies end.
\<close>

function WaitForExport ::
  "string \<Rightarrow> string \<Rightarrow> int \<Rightarrow> 'd world \<Rightarrow> ((error + ExportStatus) \<times> 'd world) option" where
  "WaitForExport exportType exportUUID pollInterval w =
     (let pollInterval1 = (if pollInterval = 0 then 5 * 1000000000 else pollInterval)
      in case poll_status exportType exportUUID w of
           None \<Rightarrow> Some (Inl (ValidationError ''exportType'' ''invalid export type''), w)
         | Some None \<Rightarrow> None
         | Some (Some (Inl e, w1)) \<Rightarrow> Some (Inl e, w1)
         | Some (Some (Inr status, w1)) \<Rightarrow>
             if Status status = ''FINISHED'' then Some (Inr status, w1)
             else if Status status = ''CANCELLED''
               then Some (Inl (ExportError exportType exportUUID ''export cancelled''), w1)
             else if Status status = ''ERROR''
               then Some (Inl (ExportError exportType exportUUID ''export failed''), w1)
             else (case select_wait pollInterval1 w1 of
                     None \<Rightarrow> None
                   | Some (CtxDone e, w2) \<Rightarrow> Some (Inl (ContextError e), w2)
                   | Some (TimerFired, w2) \<Rightarrow>
                       WaitForExport exportType exportUUID pollInterval1 w2))"
  by pat_completeness auto
termination
  apply (relation "measure (\<lambda>(t, u, p, w). length (status_replies w))")
   apply simp
  apply (auto simp: poll_status_def AssetsExportStatus_def VulnsExportStatus_def
      ComplianceExportStatus_def client_GetStatus_def select_wait_def
      split: if_splits list.splits)
  done

text \<open>
  The variables captured by the fetcher closures of \<open>VulnsIterator\<close> and (with
  \<open>chunkData\<close>) of \<open>AssetsIterator\<close>. The state of such a fetcher is its closure and
  the backend.
\<close>

record closure =
  exportUUID :: string
  status :: "ExportStatus option"
  currentChunk :: nat

record 'a assets_closure = closure +
  chunkData :: "'a list"

text \<open>
  The fetcher of \<open>AssetsIterator\<close>. \<open>unmarshal\<close> is \<open>json.Unmarshal\<close> into a slice
  of items and \<open>empty_array\<close> the raw message \<open>"[]"\<close>.
\<close>

definition AssetsIterator_fetcher ::
  "('d \<Rightarrow> error + 'a list) \<Rightarrow> 'd \<Rightarrow> ExportAssetsRequest option
     \<Rightarrow> ('d, 'a assets_closure \<times> 'd world) PageFetcher" where
  "AssetsIterator_fetcher unmarshal empty_array req = (\<lambda>(c, w) offset limit.
     case (if exportUUID c = '''' then AssetsExport req w else Some (Inr (exportUUID c), w)) of
       None \<Rightarrow> None
     | Some (Inl e, w1) \<Rightarrow> Some (Inl e, (c, w1))
     | Some (Inr uuid, w1) \<Rightarrow>
         (let c1 = c\<lparr>exportUUID := uuid\<rparr>
          in case (case status c1 of
                     None \<Rightarrow> WaitForExport ''assets'' uuid (5 * 1000000000) w1
                   | Some s \<Rightarrow> Some (Inr s, w1)) of
               None \<Rightarrow> None
             | Some (Inl e, w2) \<Rightarrow> Some (Inl e, (c1, w2))
             | Some (Inr s, w2) \<Rightarrow>
                 (let c2 = c1\<lparr>status := Some s\<rparr>
                  in if currentChunk c2 \<ge> length (ChunksAvailable s)
                     then Some (Inr (empty_array, Some \<lparr>Total' = 0, Limit = 0, Offset = 0\<rparr>),
                                (c2, w2))
                     else
                       (let chunkID = ChunksAvailable s ! currentChunk c2
                        in case AssetsExportChunk uuid chunkID w2 of
                             None \<Rightarrow> None
                           | Some (Inl e, w3) \<Rightarrow> Some (Inl e, (c2, w3))
                           | Some (Inr data, w3) \<Rightarrow>
                               (case unmarshal data of
                                  Inl e \<Rightarrow> Some (Inl e, (c2, w3))
                                | Inr items \<Rightarrow>
                                    Some (Inr (data,
                                            Some \<lparr>Total' = int (length (ChunksAvailable s)),
                                                  Limit = 0, Offset = 0\<rparr>),
                                          (c2\<lparr>chunkData := items,
                                              currentChunk := currentChunk c2 + 1\<rparr>, w3)))))))"

definition VulnsIterator_fetcher ::
  "'d \<Rightarrow> ExportVulnsRequest option \<Rightarrow> ('d, closure \<times> 'd world) PageFetcher" where
  "VulnsIterator_fetcher empty_array req = (\<lambda>(c, w) offset limit.
     case (if exportUUID c = '''' then VulnsExport req w else Some (Inr (exportUUID c), w)) of
       None \<Rightarrow> None
     | Some (Inl e, w1) \<Rightarrow> Some (Inl e, (c, w1))
     | Some (Inr uuid, w1) \<Rightarrow>
         (let c1 = c\<lparr>exportUUID := uuid\<rparr>
          in case (case status c1 of
                     None \<Rightarrow> WaitForExport ''vulns'' uuid (5 * 1000000000) w1
                   | Some s \<Rightarrow> Some (Inr s, w1)) of
               None \<Rightarrow> None
             | Some (Inl e, w2) \<Rightarrow> Some (Inl e, (c1, w2))
             | Some (Inr s, w2) \<Rightarrow>
                 (let c2 = c1\<lparr>status := Some s\<rparr>
                  in if currentChunk c2 \<ge> length (ChunksAvailable s)
                     then Some (Inr (empty_array, Some \<lparr>Total' = 0, Limit = 0, Offset = 0\<rparr>),
                                (c2, w2))
                     else
                       (let chunkID = ChunksAvailable s ! currentChunk c2
                        in case VulnsExportChunk uuid chunkID w2 of
                             None \<Rightarrow> None
                           | Some (Inl e, w3) \<Rightarrow> Some (Inl e, (c2, w3))
                           | Some (Inr data, w3) \<Rightarrow>
                               Some (Inr (data,
                                       Some \<lparr>Total' = int (length (ChunksAvailable s)),
                                             Limit = 0, Offset = 0\<rparr>),
                                     (c2\<lparr>currentChunk := currentChunk c2 + 1\<rparr>, w3))))))"

text \<open>
  \<open>AssetsIterator\<close> and \<open>VulnsIterator\<close> build the iterator over these fetchers with
  no option; its transformer is \<open>json.Unmarshal\<close> into a slice of items. The closure
  starts with the zero values of its variables.
\<close>

definition AssetsIterator :: "'a \<Rightarrow> 'd world \<Rightarrow> ('a, 'a assets_closure \<times> 'd world) Iterator" where
  "AssetsIterator zero w =
     NewIterator zero (\<lparr>exportUUID = '''', status = None, currentChunk = 0, chunkData = []\<rparr>, w) []"

definition VulnsIterator :: "'a \<Rightarrow> 'd world \<Rightarrow> ('a, closure \<times> 'd world) Iterator" where
  "VulnsIterator zero w =
     NewIterator zero (\<lparr>exportUUID = '''', status = None, currentChunk = 0\<rparr>, w) []"




subsection \<open>Fixtures of the worked examples\<close>

text \<open>A scripted backend that serves one page of two items and then fails.\<close>

definition two_then_fail :: "nat list page_reply list" where
  "two_then_fail = [Inr ([1, 2], None), Inl (TransportError ''reset'')]"

text \<open>The iterator left by draining it.\<close>

definition failed_it :: "(nat, nat list page_reply list) Iterator" where
  "failed_it = \<lparr>fstate = [], limit = 100, offset = 2, total' = -1, page = [1, 2], pageIndex = 2,
       count = 2, maxPages = 0, pagesLoaded = 1, done' = False,
       err = Some (TransportError ''reset''), current = 2\<rparr>"

text \<open>
  The iterator of the scripted backend above, run under \<open>logged\<close>, after it was
  drained.
\<close>

definition failed_logged_it ::
  "(nat, nat list page_reply list \<times> nat list page_reply list) Iterator" where
  "failed_logged_it = \<lparr>fstate = ([], two_then_fail), limit = 100, offset = 2, total' = -1,
       page = [1, 2], pageIndex = 2, count = 2, maxPages = 0, pagesLoaded = 1, done' = False,
       err = Some (TransportError ''reset''), current = 2\<rparr>"

text \<open>
  A transformer that fails to decode a page holding the item \<open>0\<close>, and a scripted
  backend that serves one page of two items and then a page of that kind.
\<close>

definition strict_decode :: "(nat list, nat) ItemTransformer" where
  "strict_decode data = (if 0 \<in> set data then Inl (UnmarshalError ''zero'') else Inr data)"

definition two_then_garbled :: "nat list page_reply list" where
  "two_then_garbled = [Inr ([1, 2], None), Inr ([0], None)]"

text \<open>
  The iterator of either backend once the two items of the first page have been
  yielded, the fetcher being in state \<open>s\<close>; and the iterators left by draining the
  second backend, plain and under \<open>logged\<close>.
\<close>

definition two_consumed :: "'s \<Rightarrow> (nat, 's) Iterator" where
  "two_consumed s = \<lparr>fstate = s, limit = 100, offset = 2, total' = -1, page = [1, 2],
       pageIndex = 2, count = 2, maxPages = 0, pagesLoaded = 1, done' = False, err = None,
       current = 2\<rparr>"

definition garbled_it :: "(nat, nat list page_reply list) Iterator" where
  "garbled_it = \<lparr>fstate = [], limit = 100, offset = 2, total' = -1, page = [1, 2], pageIndex = 2,
       count = 2, maxPages = 0, pagesLoaded = 1, done' = False,
       err = Some (TransformError (UnmarshalError ''zero'')), current = 2\<rparr>"

definition garbled_logged_it ::
  "(nat, nat list page_reply list \<times> nat list page_reply list) Iterator" where
  "garbled_logged_it = \<lparr>fstate = ([], two_then_garbled), limit = 100, offset = 2, total' = -1,
       page = [1, 2], pageIndex = 2, count = 2, maxPages = 0, pagesLoaded = 1, done' = False,
       err = Some (TransformError (UnmarshalError ''zero'')), current = 2\<rparr>"

text \<open>
  An iterator that has consumed a first page \<open>[1, 2]\<close> reported with total \<open>10\<close>, over
  a scripted backend whose next page is \<open>[3]\<close> reported with total \<open>1\<close>; and the
  iterator after the next call of \<open>Next\<close>.
\<close>

definition shrinking_it :: "(nat, nat list page_reply list) Iterator" where
  "shrinking_it = \<lparr>fstate = [Inr ([3], Some \<lparr>Total' = 1, Limit = 0, Offset = 0\<rparr>)],
       limit = 100, offset = 2, total' = 10, page = [1, 2], pageIndex = 2, count = 2,
       maxPages = 0, pagesLoaded = 1, done' = False, err = None, current = 2\<rparr>"

definition shrunk_it :: "(nat, nat list page_reply list) Iterator" where
  "shrunk_it = \<lparr>fstate = [], limit = 100, offset = 3, total' = 1, page = [3], pageIndex = 1,
       count = 3, maxPages = 0, pagesLoaded = 2, done' = False, err = None, current = 3\<rparr>"

subsection \<open>Auxiliary notions of the proofs\<close>

text \<open>
  The arguments of the \<open>WithLimit\<close>, of the \<open>WithOffset\<close> and of the \<open>WithMaxPages\<close>
  options of a list of options, in order.
\<close>

fun limits_of :: "IteratorOption list \<Rightarrow> int list" where
  "limits_of [] = []"
| "limits_of (WithLimit l # opts) = l # limits_of opts"
| "limits_of (opt # opts) = limits_of opts"

fun offsets_of :: "IteratorOption list \<Rightarrow> int list" where
  "offsets_of [] = []"
| "offsets_of (WithOffset off # opts) = off # offsets_of opts"
| "offsets_of (opt # opts) = offsets_of opts"

fun maxPages_of :: "IteratorOption list \<Rightarrow> int list" where
  "maxPages_of [] = []"
| "maxPages_of (WithMaxPages m # opts) = m # maxPages_of opts"
| "maxPages_of (opt # opts) = maxPages_of opts"

text \<open>
  \<open>retotal g fetcher\<close> behaves as \<open>fetcher\<close>, except that it reports the total
  \<open>g t\<close> wherever \<open>fetcher\<close> reports the total \<open>t\<close>.
\<close>

definition retotal :: "(int \<Rightarrow> int) \<Rightarrow> ('d, 's) PageFetcher \<Rightarrow> ('d, 's) PageFetcher" where
  "retotal g fetcher = (\<lambda>s off lim.
     case fetcher s off lim of
       None \<Rightarrow> None
     | Some (Inl e, s') \<Rightarrow> Some (Inl e, s')
     | Some (Inr (d, None), s') \<Rightarrow> Some (Inr (d, None), s')
     | Some (Inr (d, Some p), s') \<Rightarrow> Some (Inr (d, Some (p\<lparr>Total' := g (Total' p)\<rparr>)), s'))"

text \<open>
  The iterator once a page reply has come back: the fetcher's new state, and the total
  of the reply's pagination info when there is one.
\<close>

definition with_reply :: "('a, 's) Iterator \<Rightarrow> 's \<Rightarrow> PaginationInfo option \<Rightarrow> ('a, 's) Iterator" where
  "with_reply it s' pagination =
     it\<lparr>fstate := s', total' := (case pagination of None \<Rightarrow> total' it | Some p \<Rightarrow> Total' p)\<rparr>"

text \<open>What \<open>fetchNextPage\<close> does with the reply \<open>r\<close> of the fetcher, which left state \<open>s'\<close>.\<close>

definition absorb :: "('d, 'a) ItemTransformer \<Rightarrow> ('a, 's) Iterator \<Rightarrow> 'd page_reply \<Rightarrow> 's
    \<Rightarrow> bool \<times> ('a, 's) Iterator" where
  "absorb transformer it r s' =
     (case r of
        Inl e \<Rightarrow> (False, it\<lparr>fstate := s', err := Some e\<rparr>)
      | Inr (d, pg) \<Rightarrow>
          (case transformer d of
             Inl e \<Rightarrow> (False, (with_reply it s' pg)\<lparr>err := Some (TransformError e)\<rparr>)
           | Inr items \<Rightarrow>
               if length items = 0 then (False, (with_reply it s' pg)\<lparr>done' := True\<rparr>)
               else (True, (with_reply it s' pg)\<lparr>page := items, pageIndex := 1,
                       offset := offset it + int (length items),
                       pagesLoaded := pagesLoaded it + 1,
                       current := items ! 0, count := count it + 1\<rparr>)))"

text \<open>
  The invariant of a drain over a logged fetcher: no error so far, every logged reply
  decoded, and the items yielded so far with the rest of the current page are the
  items of the logged replies.
\<close>

definition fail_stop_inv ::
  "('d, 'a) ItemTransformer \<Rightarrow> ('a, 's \<times> 'd page_reply list) Iterator \<Rightarrow> 'a list \<Rightarrow> bool" where
  "fail_stop_inv transformer it acc \<longleftrightarrow>
     err it = None \<and> (\<forall>r \<in> set (snd (fstate it)). reply_error transformer r = None) \<and>
     acc @ drop (pageIndex it) (page it) = concat (map (reply_items transformer) (snd (fstate it)))"

text \<open>
  The state of a drain that ended on an error: the last logged reply is the failing
  one, the replies before it decoded, and their items are what was yielded.
\<close>

definition fail_stop_final ::
  "('d, 'a) ItemTransformer \<Rightarrow> ('a, 's \<times> 'd page_reply list) Iterator \<Rightarrow> 'a list \<Rightarrow> bool" where
  "fail_stop_final transformer it ys \<longleftrightarrow>
     snd (fstate it) \<noteq> [] \<and> err it = reply_error transformer (last (snd (fstate it))) \<and>
     (\<forall>r \<in> set (butlast (snd (fstate it))). reply_error transformer r = None) \<and>
     ys = concat (map (reply_items transformer) (butlast (snd (fstate it))))"

text \<open>
  For an iterator over the fixed collection \<open>allItems\<close>: the items still to come, those
  left in the current page and those beyond the offset.
\<close>

definition remaining :: "'a list \<Rightarrow> ('a, 's) Iterator \<Rightarrow> 'a list" where
  "remaining allItems it = drop (pageIndex it) (page it) @ drop (nat (offset it)) allItems"

text \<open>The invariant of a drain of the fixed collection \<open>allItems\<close>.\<close>

definition drain_inv :: "'a list \<Rightarrow> ('a, 's) Iterator \<Rightarrow> bool" where
  "drain_inv allItems it \<longleftrightarrow>
     err it = None \<and> \<not> done' it \<and> maxPages it \<le> 0 \<and> limit it \<ge> 1 \<and>
     0 \<le> offset it \<and> offset it \<le> int (length allItems) \<and>
     (total' it = -1 \<or> total' it = int (length allItems)) \<and>
     count it + int (length (remaining allItems it)) \<le> int (length allItems)"

subsection \<open>Auxiliary notions and fixtures for the exports\<close>

text \<open>
  The poll interval \<open>WaitForExport\<close> uses: five seconds when it is given \<open>0\<close>.
\<close>

definition interval :: "int \<Rightarrow> int" where
  "interval pollInterval = (if pollInterval = 0 then 5 * 1000000000 else pollInterval)"

text \<open>
  The requests of \<open>n\<close> rounds of \<open>WaitForExport\<close> that found the job still running:
  a status poll and a wait, \<open>n\<close> times.
\<close>

definition rounds :: "string \<Rightarrow> string \<Rightarrow> int \<Rightarrow> nat \<Rightarrow> request list" where
  "rounds exportType uuid pollInterval n =
     concat (replicate n [GetStatus exportType uuid, PollWait (interval pollInterval)])"

text \<open>
  The backend after \<open>n\<close> such rounds and one more status poll: \<open>later\<close> and \<open>sigs\<close>
  are the status replies and the wait outcomes not yet used.
\<close>

definition after_polls ::
  "string \<Rightarrow> string \<Rightarrow> int \<Rightarrow> nat \<Rightarrow> (error + ExportStatus) list \<Rightarrow> wait_signal list \<Rightarrow> 'd world \<Rightarrow> 'd world" where
  "after_polls exportType uuid pollInterval n later sigs w =
     w\<lparr>status_replies := later, wait_signals := sigs,
       requests := requests w @ rounds exportType uuid pollInterval n @ [GetStatus exportType uuid]\<rparr>"

text \<open>
  A backend whose export is still running at the first poll and finished at the
  second, with the chunks \<open>1\<close> (three items) and \<open>2\<close> (two items).
\<close>

definition finished_status :: ExportStatus where
  "finished_status = \<lparr>Status = ''FINISHED'', ChunksAvailable = [1, 2]\<rparr>"

definition finished_world :: "nat list world" where
  "finished_world =
     \<lparr>post_replies = [Inr ''u1''],
      status_replies = [Inr \<lparr>Status = ''PROCESSING'', ChunksAvailable = []\<rparr>, Inr finished_status],
      wait_signals = [TimerFired],
      chunk_store = (\<lambda>t u i. if i = 1 then Inr [10, 11, 12] else Inr [20, 21]),
      requests = []\<rparr>"




text \<open>
  A backend whose job is running at the first poll and reports \<open>ERROR\<close> at the second.
\<close>

definition job_fails :: "nat list world" where
  "job_fails =
     \<lparr>post_replies = [],
      status_replies = [Inr \<lparr>Status = ''PROCESSING'', ChunksAvailable = []\<rparr>,
                        Inr \<lparr>Status = ''ERROR'', ChunksAvailable = []\<rparr>],
      wait_signals = [TimerFired],
      chunk_store = (\<lambda>t u i. Inl (TransportError ''no chunk'')),
      requests = []\<rparr>"

text \<open>
  A backend whose job keeps running while the caller cancels during the second wait.
\<close>

definition caller_cancels :: "nat list world" where
  "caller_cancels =
     \<lparr>post_replies = [],
      status_replies = [Inr \<lparr>Status = ''PROCESSING'', ChunksAvailable = []\<rparr>,
                        Inr \<lparr>Status = ''PROCESSING'', ChunksAvailable = []\<rparr>,
                        Inr \<lparr>Status = ''FINISHED'', ChunksAvailable = [1]\<rparr>],
      wait_signals = [TimerFired, CtxDone Canceled],
      chunk_store = (\<lambda>t u i. Inl (TransportError ''no chunk'')),
      requests = []\<rparr>"






text \<open>
  The invariant of the log in any drain: only the last reply logged can be a failure,
  and the iterator's error is that failure.
\<close>

definition log_inv ::
  "('d, 'a) ItemTransformer \<Rightarrow> ('a, 's \<times> 'd page_reply list) Iterator \<Rightarrow> bool" where
  "log_inv transformer it \<longleftrightarrow>
     (\<forall>r \<in> set (butlast (snd (fstate it))). reply_error transformer r = None) \<and>
     err it = (if snd (fstate it) = [] then None else reply_error transformer (last (snd (fstate it))))"

section \<open>Properties of the iterator\<close>

subsection \<open>Construction\<close>

lemma apply_option_fixed:
  "fstate (apply_option opt it) = fstate it \<and> total' (apply_option opt it) = total' it \<and>
   page (apply_option opt it) = page it \<and> pageIndex (apply_option opt it) = pageIndex it \<and>
   count (apply_option opt it) = count it \<and> pagesLoaded (apply_option opt it) = pagesLoaded it \<and>
   done' (apply_option opt it) = done' it \<and> err (apply_option opt it) = err it \<and>
   current (apply_option opt it) = current it"
  by (cases opt) simp_all

lemma foldl_options_fixed:
  "fstate (foldl (\<lambda>it opt. apply_option opt it) it opts) = fstate it \<and>
   total' (foldl (\<lambda>it opt. apply_option opt it) it opts) = total' it \<and>
   page (foldl (\<lambda>it opt. apply_option opt it) it opts) = page it \<and>
   pageIndex (foldl (\<lambda>it opt. apply_option opt it) it opts) = pageIndex it \<and>
   count (foldl (\<lambda>it opt. apply_option opt it) it opts) = count it \<and>
   pagesLoaded (foldl (\<lambda>it opt. apply_option opt it) it opts) = pagesLoaded it \<and>
   done' (foldl (\<lambda>it opt. apply_option opt it) it opts) = done' it \<and>
   err (foldl (\<lambda>it opt. apply_option opt it) it opts) = err it \<and>
   current (foldl (\<lambda>it opt. apply_option opt it) it opts) = current it"
  by (induction opts arbitrary: it) (simp_all add: apply_option_fixed)

lemma NewIterator_fresh:
  "fstate (NewIterator z s0 opts) = s0" "total' (NewIterator z s0 opts) = -1"
  "page (NewIterator z s0 opts) = []" "pageIndex (NewIterator z s0 opts) = 0"
  "count (NewIterator z s0 opts) = 0" "pagesLoaded (NewIterator z s0 opts) = 0"
  "done' (NewIterator z s0 opts) = False" "err (NewIterator z s0 opts) = None"
  "current (NewIterator z s0 opts) = z"
  unfolding NewIterator_def by (simp_all add: foldl_options_fixed)

lemma NewIterator_snoc:
  "NewIterator z s0 (opts @ [opt]) = apply_option opt (NewIterator z s0 opts)"
  by (simp add: NewIterator_def)

text \<open>
  Claim C6, as stated, fails: \<open>NewIterator\<close> has no error result and checks nothing.
  With \<open>WithLimit(-3)\<close> it returns a live iterator (no error, not done, fetcher not
  yet called), and the first \<open>Next\<close> calls the fetcher with offset \<open>0\<close> and limit
  \<open>-3\<close> and yields the item it serves.
\<close>

theorem NewIterator_nonpositive_limit_counterexample:
  "limit (NewIterator (0, 0) [] [WithLimit (- 3)]) = - 3 \<and>
   Err (NewIterator (0, 0) [] [WithLimit (- 3)]) = None \<and>
   \<not> done' (NewIterator (0, 0) [] [WithLimit (- 3)]) \<and>
   fstate (NewIterator (0, 0) [] [WithLimit (- 3)]) = [] \<and>
   map_option (\<lambda>(obs, it). (obs, fstate it, Err it))
     (pulls (Suc 0) recording Inr (NewIterator (0, 0) [] [WithLimit (- 3)]))
     = Some ([(True, (0, - 3))], [(0, - 3)], None)"
  by (simp add: NewIterator_def Err_def Next_def fetchNextPage_def recording_def Item_def)

lemma limits_of_append: "limits_of (xs @ ys) = limits_of xs @ limits_of ys"
  by (induction xs rule: limits_of.induct) simp_all

lemma offsets_of_append: "offsets_of (xs @ ys) = offsets_of xs @ offsets_of ys"
  by (induction xs rule: offsets_of.induct) simp_all

lemma maxPages_of_append: "maxPages_of (xs @ ys) = maxPages_of xs @ maxPages_of ys"
  by (induction xs rule: maxPages_of.induct) simp_all

lemma NewIterator_value:
  "NewIterator zero s0 opts =
     \<lparr>fstate = s0, limit = last (100 # limits_of opts), offset = last (0 # offsets_of opts),
      total' = -1, page = [], pageIndex = 0, count = 0,
      maxPages = last (0 # maxPages_of opts), pagesLoaded = 0, done' = False, err = None,
      current = zero\<rparr>"
proof (induction opts rule: rev_induct)
  case Nil
  show ?case by (simp add: NewIterator_def)
next
  case (snoc opt opts)
  show ?case
    unfolding NewIterator_snoc snoc.IH
    by (cases opt) (simp_all add: limits_of_append offsets_of_append maxPages_of_append)
qed

text \<open>
  Claim C6, amended: constructing an iterator never fails and never calls the fetcher,
  whatever the options: the iterator returned has no error, is not done and holds the
  fetcher's initial state; the page size is \<open>100\<close> by default and otherwise the value of
  the last \<open>WithLimit\<close> of the list, positive or not, whatever options come before or
  after it. In full: the iterator returned is the fresh one whose page size, offset and
  page cap are the arguments of the last \<open>WithLimit\<close>, \<open>WithOffset\<close> and
  \<open>WithMaxPages\<close> of the list, or \<open>100\<close>, \<open>0\<close> and \<open>0\<close> where there is none.
  Failures can only come from the pull operation.
\<close>

theorem NewIterator_never_fails:
  "Err (NewIterator zero s0 opts) = None \<and> \<not> done' (NewIterator zero s0 opts) \<and>
   fstate (NewIterator zero s0 opts) = s0 \<and>
   limit (NewIterator zero s0 []) = 100 \<and>
   limit (NewIterator zero s0 (opts @ [WithLimit l])) = l \<and>
   NewIterator zero s0 opts =
     \<lparr>fstate = s0, limit = last (100 # limits_of opts), offset = last (0 # offsets_of opts),
      total' = -1, page = [], pageIndex = 0, count = 0,
      maxPages = last (0 # maxPages_of opts), pagesLoaded = 0, done' = False, err = None,
      current = zero\<rparr>"
  using NewIterator_value [of zero s0 opts]
  by (simp add: Err_def NewIterator_fresh NewIterator_snoc) (simp add: NewIterator_def)

theorem NewIterator_never_fails_witness:
  "Err (NewIterator (0::nat) () [WithLimit 0, WithOffset 4]) = None \<and>
   \<not> done' (NewIterator (0::nat) () [WithLimit 0, WithOffset 4]) \<and>
   fstate (NewIterator (0::nat) () [WithLimit 0, WithOffset 4]) = () \<and>
   limit (NewIterator (0::nat) () []) = 100 \<and>
   limit (NewIterator (0::nat) () [WithLimit 0, WithOffset 4, WithLimit (- 7)]) = - 7 \<and>
   NewIterator (0::nat) () [WithLimit 0, WithOffset 4] =
     \<lparr>fstate = (), limit = 0, offset = 4, total' = -1, page = [], pageIndex = 0, count = 0,
      maxPages = 0, pagesLoaded = 0, done' = False, err = None, current = 0\<rparr>"
  using NewIterator_never_fails [of "0::nat" "()" "[WithLimit 0, WithOffset 4]" "- 7"]
  by (simp add: Err_def)

subsection \<open>A reported total of zero\<close>

text \<open>
  Claim C9: when the first fetch of a new iterator returns a non-nil \<open>PaginationInfo\<close>
  with \<open>Total = 0\<close> and a page that decodes to the non-empty list \<open>x # xs\<close>, the first
  \<open>Next\<close> returns true with item \<open>x\<close>, the second returns false, no error is recorded,
  the fetcher is not called again (its state is the one the first call left), and
  \<open>All\<close> returns just \<open>[x]\<close> with a nil error: the items \<open>xs\<close> are never yielded.
\<close>

theorem zero_total_first_page:
  assumes it: "it = NewIterator z s0 opts"
    and f: "fetcher s0 (offset it) (limit it) = Some (Inr (data, Some p), s1)"
    and p: "Total' p = 0"
    and tr: "transformer data = Inr (x # xs)"
  shows "map_option fst (pulls (Suc (Suc 0)) fetcher transformer it) = Some [(True, x), (False, x)] \<and>
         map_option (Err \<circ> snd) (pulls (Suc (Suc 0)) fetcher transformer it) = Some None \<and>
         map_option (fstate \<circ> snd) (pulls (Suc (Suc 0)) fetcher transformer it) = Some s1 \<and>
         map_option fst (All' (Suc (Suc n)) fetcher transformer it) = Some ([x], None)"
proof -
  let ?it1 = "it\<lparr>fstate := s1, total' := 0, page := x # xs, pageIndex := 1,
                 offset := offset it + int (length (x # xs)),
                 pagesLoaded := pagesLoaded it + 1, current := x, count := count it + 1\<rparr>"
  let ?it2 = "?it1\<lparr>done' := True\<rparr>"
  have fr: "fstate it = s0" "total' it = -1" "page it = []" "pageIndex it = 0" "count it = 0"
    "pagesLoaded it = 0" "\<not> done' it" "err it = None"
    unfolding it by (simp_all add: NewIterator_fresh)
  have n1: "Next fetcher transformer it = Some (True, ?it1)"
    using f p tr fr by (simp add: Next_def fetchNextPage_def)
  have n2: "Next fetcher transformer ?it1 = Some (False, ?it2)"
    using fr by (simp add: Next_def)
  have e: "err ?it2 = None" using fr by simp
  have pl: "pulls (Suc (Suc 0)) fetcher transformer it = Some ([(True, x), (False, x)], ?it2)"
    using n1 n2 by (simp add: Item_def)
  have c: "collect (Suc (Suc n)) fetcher transformer it [] = Some ([x], ?it2)"
    using n1 n2 by (simp add: Item_def)
  have a: "All' (Suc (Suc n)) fetcher transformer it = Some (([x], None), ?it2)"
    unfolding All'_def using c e by simp
  show ?thesis using pl e a by (simp add: Err_def)
qed

theorem zero_total_first_page_witness:
  "map_option fst (pulls (Suc (Suc 0)) scripted Inr
      (NewIterator (0::nat) [Inr ([7, 8, 9], Some \<lparr>Total' = 0, Limit = 0, Offset = 0\<rparr>)] []))
     = Some [(True, 7), (False, 7)] \<and>
   map_option (Err \<circ> snd) (pulls (Suc (Suc 0)) scripted Inr
      (NewIterator (0::nat) [Inr ([7, 8, 9], Some \<lparr>Total' = 0, Limit = 0, Offset = 0\<rparr>)] []))
     = Some None \<and>
   map_option (fstate \<circ> snd) (pulls (Suc (Suc 0)) scripted Inr
      (NewIterator (0::nat) [Inr ([7, 8, 9], Some \<lparr>Total' = 0, Limit = 0, Offset = 0\<rparr>)] []))
     = Some [] \<and>
   map_option fst (All' (Suc (Suc 0)) scripted Inr
      (NewIterator (0::nat) [Inr ([7, 8, 9], Some \<lparr>Total' = 0, Limit = 0, Offset = 0\<rparr>)] []))
     = Some ([7], None)"
  using zero_total_first_page [of "NewIterator (0::nat) [Inr ([7, 8, 9], Some \<lparr>Total' = 0, Limit = 0, Offset = 0\<rparr>)] []"
      0 "[Inr ([7, 8, 9], Some \<lparr>Total' = 0, Limit = 0, Offset = 0\<rparr>)]" "[]" scripted
      "[7,8,9]" "\<lparr>Total' = 0, Limit = 0, Offset = 0\<rparr>" "[]" Inr 7 "[8,9]" 0]
  by simp

subsection \<open>Case analysis of \<open>Next\<close> and \<open>fetchNextPage\<close>\<close>

lemma with_reply_eq:
  "(case pagination of None \<Rightarrow> it\<lparr>fstate := s'\<rparr> | Some p \<Rightarrow> it\<lparr>fstate := s', total' := Total' p\<rparr>)
     = with_reply it s' pagination"
  by (cases pagination) (simp_all add: with_reply_def)

lemma fetchNextPage_cases:
  assumes "fetchNextPage fetcher transformer it = Some (b, it')"
  obtains
    (capped) "(maxPages it > 0 \<and> pagesLoaded it \<ge> maxPages it) \<or> (total' it \<ge> 0 \<and> offset it \<ge> total' it)"
      "b = False" "it' = it\<lparr>done' := True\<rparr>"
  | (fetch_err) e s' where
      "\<not> (maxPages it > 0 \<and> pagesLoaded it \<ge> maxPages it)" "\<not> (total' it \<ge> 0 \<and> offset it \<ge> total' it)"
      "fetcher (fstate it) (offset it) (limit it) = Some (Inl e, s')"
      "b = False" "it' = it\<lparr>fstate := s', err := Some e\<rparr>"
  | (decode_err) d pg s' e where
      "\<not> (maxPages it > 0 \<and> pagesLoaded it \<ge> maxPages it)" "\<not> (total' it \<ge> 0 \<and> offset it \<ge> total' it)"
      "fetcher (fstate it) (offset it) (limit it) = Some (Inr (d, pg), s')"
      "transformer d = Inl e"
      "b = False" "it' = (with_reply it s' pg)\<lparr>err := Some (TransformError e)\<rparr>"
  | (empty) d pg s' where
      "\<not> (maxPages it > 0 \<and> pagesLoaded it \<ge> maxPages it)" "\<not> (total' it \<ge> 0 \<and> offset it \<ge> total' it)"
      "fetcher (fstate it) (offset it) (limit it) = Some (Inr (d, pg), s')"
      "transformer d = Inr []"
      "b = False" "it' = (with_reply it s' pg)\<lparr>done' := True\<rparr>"
  | (fetched) d pg s' x xs where
      "\<not> (maxPages it > 0 \<and> pagesLoaded it \<ge> maxPages it)" "\<not> (total' it \<ge> 0 \<and> offset it \<ge> total' it)"
      "fetcher (fstate it) (offset it) (limit it) = Some (Inr (d, pg), s')"
      "transformer d = Inr (x # xs)"
      "b = True"
      "it' = (with_reply it s' pg)\<lparr>page := x # xs, pageIndex := 1,
               offset := offset it + int (length (x # xs)),
               pagesLoaded := pagesLoaded it + 1, current := x, count := count it + 1\<rparr>"
proof (cases "(maxPages it > 0 \<and> pagesLoaded it \<ge> maxPages it) \<or> (total' it \<ge> 0 \<and> offset it \<ge> total' it)")
  case True
  with assms have "b = False" "it' = it\<lparr>done' := True\<rparr>"
    by (auto simp: fetchNextPage_def split: if_splits)
  with True show ?thesis by (rule capped)
next
  case False
  then have g: "\<not> (maxPages it > 0 \<and> pagesLoaded it \<ge> maxPages it)" "\<not> (total' it \<ge> 0 \<and> offset it \<ge> total' it)"
    by blast+
  show ?thesis
  proof (cases "fetcher (fstate it) (offset it) (limit it)")
    case None
    have "fetchNextPage fetcher transformer it = None"
      by (simp only: fetchNextPage_def if_not_P[OF g(1)] if_not_P[OF g(2)] None) simp
    with assms show ?thesis by simp
  next
    case (Some rs)
    obtain r s' where rs: "rs = (r, s')" by (cases rs)
    show ?thesis
    proof (cases r)
      case (Inl e)
      have "fetchNextPage fetcher transformer it = Some (False, it\<lparr>fstate := s', err := Some e\<rparr>)"
        by (simp only: fetchNextPage_def if_not_P[OF g(1)] if_not_P[OF g(2)] Some rs Inl) simp
      with assms have "b = False" "it' = it\<lparr>fstate := s', err := Some e\<rparr>"
        by simp_all
      with g Some rs Inl show ?thesis by (intro fetch_err) simp_all
    next
      case (Inr dp)
      obtain d pg where dp: "dp = (d, pg)" by (cases dp)
      have f: "fetcher (fstate it) (offset it) (limit it) = Some (Inr (d, pg), s')"
        using Some rs Inr dp by simp
      have unf: "fetchNextPage fetcher transformer it =
          (case transformer d of
             Inl e \<Rightarrow> Some (False, (with_reply it s' pg)\<lparr>err := Some (TransformError e)\<rparr>)
           | Inr items \<Rightarrow>
               if length items = 0 then Some (False, (with_reply it s' pg)\<lparr>done' := True\<rparr>)
               else Some (True,
                      (with_reply it s' pg)\<lparr>page := items, pageIndex := 1,
                          offset := offset (with_reply it s' pg) + int (length items),
                          pagesLoaded := pagesLoaded (with_reply it s' pg) + 1,
                          current := items ! 0,
                          count := count (with_reply it s' pg) + 1\<rparr>))"
        by (simp only: fetchNextPage_def if_not_P[OF g(1)] if_not_P[OF g(2)] f)
          (simp add: with_reply_eq Let_def)
      have fld: "offset (with_reply it s' pg) = offset it" "pagesLoaded (with_reply it s' pg) = pagesLoaded it"
        "count (with_reply it s' pg) = count it"
        by (simp_all add: with_reply_def)
      show ?thesis
      proof (cases "transformer d")
        case (Inl e)
        with assms unf have "b = False" "it' = (with_reply it s' pg)\<lparr>err := Some (TransformError e)\<rparr>"
          by simp_all
        with g f Inl show ?thesis by (intro decode_err) 
      next
        case (Inr items)
        show ?thesis
        proof (cases items)
          case Nil
          with assms unf Inr have "b = False" "it' = (with_reply it s' pg)\<lparr>done' := True\<rparr>"
            by simp_all
          with g f Inr Nil show ?thesis by (intro empty) simp_all
        next
          case (Cons x xs)
          with assms unf Inr fld have "b = True"
            "it' = (with_reply it s' pg)\<lparr>page := x # xs, pageIndex := 1,
               offset := offset it + int (length (x # xs)),
               pagesLoaded := pagesLoaded it + 1, current := x, count := count it + 1\<rparr>"
            by simp_all
          with g f Inr Cons show ?thesis by (intro fetched) simp_all
        qed
      qed
    qed
  qed
qed

lemma Next_stopped: "done' it \<or> err it \<noteq> None \<Longrightarrow> Next fetcher transformer it = Some (False, it)"
  by (simp add: Next_def)

lemma Next_total_reached:
  assumes "\<not> (done' it \<or> err it \<noteq> None)" "total' it \<ge> 0 \<and> count it \<ge> total' it"
  shows "Next fetcher transformer it = Some (False, it\<lparr>done' := True\<rparr>)"
  by (simp only: Next_def if_not_P[OF assms(1)] if_P[OF assms(2)])

lemma Next_in_page:
  assumes "\<not> (done' it \<or> err it \<noteq> None)" "\<not> (total' it \<ge> 0 \<and> count it \<ge> total' it)"
    "\<not> pageIndex it \<ge> length (page it)"
  shows "Next fetcher transformer it =
    Some (True, it\<lparr>current := page it ! pageIndex it, pageIndex := pageIndex it + 1, count := count it + 1\<rparr>)"
  by (simp only: Next_def if_not_P[OF assms(1)] if_not_P[OF assms(2)] if_not_P[OF assms(3)])

lemma Next_fetch:
  assumes "\<not> (done' it \<or> err it \<noteq> None)" "\<not> (total' it \<ge> 0 \<and> count it \<ge> total' it)"
    "pageIndex it \<ge> length (page it)"
  shows "Next fetcher transformer it = fetchNextPage fetcher transformer it"
  by (simp only: Next_def if_not_P[OF assms(1)] if_not_P[OF assms(2)] if_P[OF assms(3)])

lemma Next_cases:
  assumes "Next fetcher transformer it = Some (b, it')"
  obtains
    (stopped) "done' it \<or> err it \<noteq> None" "b = False" "it' = it"
  | (total_reached) "\<not> (done' it \<or> err it \<noteq> None)" "total' it \<ge> 0 \<and> count it \<ge> total' it"
      "b = False" "it' = it\<lparr>done' := True\<rparr>"
  | (in_page) "\<not> (done' it \<or> err it \<noteq> None)" "\<not> (total' it \<ge> 0 \<and> count it \<ge> total' it)"
      "pageIndex it < length (page it)" "b = True"
      "it' = it\<lparr>current := page it ! pageIndex it, pageIndex := pageIndex it + 1, count := count it + 1\<rparr>"
  | (fetch) "\<not> (done' it \<or> err it \<noteq> None)" "\<not> (total' it \<ge> 0 \<and> count it \<ge> total' it)"
      "pageIndex it \<ge> length (page it)" "fetchNextPage fetcher transformer it = Some (b, it')"
proof (cases "done' it \<or> err it \<noteq> None")
  case True
  with assms Next_stopped[OF True, of fetcher transformer] show ?thesis by (intro stopped) simp_all
next
  case ns: False
  show ?thesis
  proof (cases "total' it \<ge> 0 \<and> count it \<ge> total' it")
    case True
    with assms Next_total_reached[OF ns True, of fetcher transformer] ns show ?thesis
      by (intro total_reached) simp_all
  next
    case nt: False
    show ?thesis
    proof (cases "pageIndex it \<ge> length (page it)")
      case True
      with assms Next_fetch[OF ns nt True, of fetcher transformer] ns nt show ?thesis
        by (intro fetch) simp_all
    next
      case False
      with assms Next_in_page[OF ns nt False, of fetcher transformer] ns nt show ?thesis
        by (intro in_page) simp_all
    qed
  qed
qed

subsection \<open>The stored total\<close>

text \<open>
  Claim C2, as stated, fails: the stored total is not kept from dropping. A backend
  that reports total \<open>10\<close> with its first page \<open>[1, 2]\<close> and total \<open>1\<close> with its second
  page \<open>[3]\<close> leaves the iterator with total \<open>10\<close> after the first \<open>Next\<close> and with
  total \<open>1\<close> after the third.
\<close>

theorem stored_total_drops_counterexample:
  "map_option (\<lambda>(obs, it). (obs, total' it, count it))
     (pulls (Suc 0) scripted Inr
        (NewIterator (0::nat)
           [Inr ([1, 2], Some \<lparr>Total' = 10, Limit = 0, Offset = 0\<rparr>),
            Inr ([3], Some \<lparr>Total' = 1, Limit = 0, Offset = 0\<rparr>)] []))
     = Some ([(True, 1)], 10, 1) \<and>
   map_option (\<lambda>(obs, it). (obs, total' it, count it))
     (pulls (Suc (Suc (Suc 0))) scripted Inr
        (NewIterator (0::nat)
           [Inr ([1, 2], Some \<lparr>Total' = 10, Limit = 0, Offset = 0\<rparr>),
            Inr ([3], Some \<lparr>Total' = 1, Limit = 0, Offset = 0\<rparr>)] []))
     = Some ([(True, 1), (True, 2), (True, 3)], 1, 3)"
  by (simp add: NewIterator_def Next_def fetchNextPage_def Item_def)

lemma Next_count:
  assumes "Next fetcher transformer it = Some (b, it')"
  shows "count it' = count it + (if b then 1 else 0)"
  using assms
proof (cases rule: Next_cases)
  case fetch
  from fetch(4) show ?thesis
    by (cases rule: fetchNextPage_cases) (simp_all add: with_reply_def)
qed simp_all

lemma Next_total:
  assumes "Next fetcher transformer it = Some (b, it')"
  shows "total' it' = (if calls_fetcher it
                 then (case fetcher (fstate it) (offset it) (limit it) of
                         Some (Inr (d, Some p), s) \<Rightarrow> Total' p
                       | _ \<Rightarrow> total' it)
                 else total' it)"
  using assms
proof (cases rule: Next_cases)
  case stopped
  then show ?thesis by (simp add: calls_fetcher_def)
next
  case total_reached
  then show ?thesis by (simp add: calls_fetcher_def)
next
  case in_page
  then show ?thesis by (simp add: calls_fetcher_def)
next
  case fetch
  from fetch(4) show ?thesis
  proof (cases rule: fetchNextPage_cases)
    case capped
    then show ?thesis by (auto simp: calls_fetcher_def)
  next
    case (fetch_err e s')
    with fetch(1-3) show ?thesis by (simp add: calls_fetcher_def)
  next
    case (decode_err d pg s' e)
    with fetch(1-3) show ?thesis by (cases pg) (simp_all add: calls_fetcher_def with_reply_def)
  next
    case (empty d pg s')
    with fetch(1-3) show ?thesis by (cases pg) (simp_all add: calls_fetcher_def with_reply_def)
  next
    case (fetched d pg s' x xs)
    with fetch(1-3) show ?thesis by (cases pg) (simp_all add: calls_fetcher_def with_reply_def)
  qed
qed

lemma fetchNextPage_capped:
  assumes "(maxPages it > 0 \<and> pagesLoaded it \<ge> maxPages it) \<or> (total' it \<ge> 0 \<and> offset it \<ge> total' it)"
  shows "fetchNextPage fetcher transformer it = Some (False, it\<lparr>done' := True\<rparr>)"
  using assms by (auto simp: fetchNextPage_def)

lemma with_reply_fields:
  "offset (with_reply it s' pg) = offset it" "pagesLoaded (with_reply it s' pg) = pagesLoaded it"
  "count (with_reply it s' pg) = count it"
  by (simp_all add: with_reply_def)

lemma fetchNextPage_uncapped:
  assumes g1: "\<not> (maxPages it > 0 \<and> pagesLoaded it \<ge> maxPages it)"
    and g2: "\<not> (total' it \<ge> 0 \<and> offset it \<ge> total' it)"
  shows "fetchNextPage fetcher transformer it =
     (case fetcher (fstate it) (offset it) (limit it) of
        None \<Rightarrow> None
      | Some (r, s') \<Rightarrow> Some (absorb transformer it r s'))"
proof (cases "fetcher (fstate it) (offset it) (limit it)")
  case None
  show ?thesis
    by (simp only: fetchNextPage_def if_not_P[OF g1] if_not_P[OF g2] None) simp
next
  case (Some rs)
  obtain r s' where rs: "rs = (r, s')" by (cases rs)
  show ?thesis
  proof (cases r)
    case (Inl e)
    show ?thesis
      by (simp only: fetchNextPage_def if_not_P[OF g1] if_not_P[OF g2] Some rs Inl)
        (simp add: absorb_def)
  next
    case (Inr dp)
    obtain d pg where dp: "dp = (d, pg)" by (cases dp)
    show ?thesis
      by (simp only: fetchNextPage_def if_not_P[OF g1] if_not_P[OF g2] Some rs Inr dp)
        (simp add: absorb_def with_reply_eq with_reply_fields Let_def split: sum.splits)
  qed
qed

lemma absorb_total_irrelevant:
  "(\<lambda>(b, i). (b, i\<lparr>total' := 0\<rparr>)) (absorb transformer (it\<lparr>total' := t\<rparr>) r s')
     = (\<lambda>(b, i). (b, i\<lparr>total' := 0\<rparr>)) (absorb transformer it r s')"
proof (cases r)
  case (Inl e)
  then show ?thesis by (simp add: absorb_def)
next
  case (Inr dp)
  obtain d pg where dp: "dp = (d, pg)" by (cases dp)
  show ?thesis
    by (cases pg; cases "transformer d") (simp_all add: Inr dp absorb_def with_reply_def)
qed

lemma fetchNextPage_total_irrelevant:
  assumes g1: "\<not> (maxPages it > 0 \<and> pagesLoaded it \<ge> maxPages it)"
    and g2: "\<not> (total' it \<ge> 0 \<and> offset it \<ge> total' it)"
    and g3: "\<not> (t \<ge> 0 \<and> offset it \<ge> t)"
  shows "map_option (\<lambda>(b, i). (b, i\<lparr>total' := 0\<rparr>)) (fetchNextPage fetcher transformer (it\<lparr>total' := t\<rparr>))
       = map_option (\<lambda>(b, i). (b, i\<lparr>total' := 0\<rparr>)) (fetchNextPage fetcher transformer it)"
proof -
  have h1: "\<not> (maxPages (it\<lparr>total' := t\<rparr>) > 0 \<and> pagesLoaded (it\<lparr>total' := t\<rparr>) \<ge> maxPages (it\<lparr>total' := t\<rparr>))"
    using g1 by simp
  have h2: "\<not> (total' (it\<lparr>total' := t\<rparr>) \<ge> 0 \<and> offset (it\<lparr>total' := t\<rparr>) \<ge> total' (it\<lparr>total' := t\<rparr>))"
    using g3 by simp
  show ?thesis
  proof (cases "fetcher (fstate it) (offset it) (limit it)")
    case None
    then show ?thesis
      by (simp add: fetchNextPage_uncapped[OF h1 h2] fetchNextPage_uncapped[OF g1 g2])
  next
    case (Some rs)
    obtain r s' where rs: "rs = (r, s')" by (cases rs)
    show ?thesis
      using absorb_total_irrelevant[where transformer=transformer and it=it and t=t and r=r and s'=s']
      by (simp add: fetchNextPage_uncapped[OF h1 h2] fetchNextPage_uncapped[OF g1 g2] Some rs)
  qed
qed

lemma Next_total_irrelevant:
  assumes c1: "(0 \<le> t \<and> t \<le> count it) = (0 \<le> total' it \<and> total' it \<le> count it)"
    and c2: "(0 \<le> t \<and> t \<le> offset it) = (0 \<le> total' it \<and> total' it \<le> offset it)"
  shows "map_option (\<lambda>(b, i). (b, i\<lparr>total' := 0\<rparr>)) (Next fetcher transformer (it\<lparr>total' := t\<rparr>))
       = map_option (\<lambda>(b, i). (b, i\<lparr>total' := 0\<rparr>)) (Next fetcher transformer it)"
proof (cases "done' it \<or> err it \<noteq> None")
  case True
  then have st2: "done' (it\<lparr>total' := t\<rparr>) \<or> err (it\<lparr>total' := t\<rparr>) \<noteq> None" by simp
  show ?thesis by (simp add: Next_stopped[OF st2] Next_stopped[OF True])
next
  case ns: False
  then have ns2: "\<not> (done' (it\<lparr>total' := t\<rparr>) \<or> err (it\<lparr>total' := t\<rparr>) \<noteq> None)" by simp
  show ?thesis
  proof (cases "total' it \<ge> 0 \<and> count it \<ge> total' it")
    case True
    with c1 have tr2: "total' (it\<lparr>total' := t\<rparr>) \<ge> 0 \<and> count (it\<lparr>total' := t\<rparr>) \<ge> total' (it\<lparr>total' := t\<rparr>)"
      by simp
    show ?thesis by (simp add: Next_total_reached[OF ns2 tr2] Next_total_reached[OF ns True])
  next
    case nt: False
    with c1 have nt2: "\<not> (total' (it\<lparr>total' := t\<rparr>) \<ge> 0 \<and> count (it\<lparr>total' := t\<rparr>) \<ge> total' (it\<lparr>total' := t\<rparr>))"
      by simp
    show ?thesis
    proof (cases "pageIndex it \<ge> length (page it)")
      case False
      then have ip2: "\<not> pageIndex (it\<lparr>total' := t\<rparr>) \<ge> length (page (it\<lparr>total' := t\<rparr>))" by simp
      show ?thesis by (simp add: Next_in_page[OF ns2 nt2 ip2] Next_in_page[OF ns nt False])
    next
      case True
      then have "pageIndex (it\<lparr>total' := t\<rparr>) \<ge> length (page (it\<lparr>total' := t\<rparr>))" by simp
      note n2 = Next_fetch[OF ns2 nt2 this, of fetcher transformer]
      note n1 = Next_fetch[OF ns nt True, of fetcher transformer]
      show ?thesis
      proof (cases "maxPages it > 0 \<and> pagesLoaded it \<ge> maxPages it")
        case True
        then have cp2: "(maxPages (it\<lparr>total' := t\<rparr>) > 0 \<and> pagesLoaded (it\<lparr>total' := t\<rparr>) \<ge> maxPages (it\<lparr>total' := t\<rparr>))
           \<or> (total' (it\<lparr>total' := t\<rparr>) \<ge> 0 \<and> offset (it\<lparr>total' := t\<rparr>) \<ge> total' (it\<lparr>total' := t\<rparr>))" by simp
        show ?thesis
          by (simp add: n1 n2 fetchNextPage_capped[OF cp2] fetchNextPage_capped[OF disjI1, OF True])
      next
        case g1: False
        show ?thesis
        proof (cases "total' it \<ge> 0 \<and> offset it \<ge> total' it")
          case True
          with c2 have cp2: "(maxPages (it\<lparr>total' := t\<rparr>) > 0 \<and> pagesLoaded (it\<lparr>total' := t\<rparr>) \<ge> maxPages (it\<lparr>total' := t\<rparr>))
           \<or> (total' (it\<lparr>total' := t\<rparr>) \<ge> 0 \<and> offset (it\<lparr>total' := t\<rparr>) \<ge> total' (it\<lparr>total' := t\<rparr>))" by simp
          show ?thesis
            by (simp add: n1 n2 fetchNextPage_capped[OF cp2] fetchNextPage_capped[OF disjI2, OF True])
        next
          case g2: False
          with c2 have g3: "\<not> (t \<ge> 0 \<and> offset it \<ge> t)" by simp
          show ?thesis
            by (simp only: n1 n2 fetchNextPage_total_irrelevant[OF g1 g2 g3])
        qed
      qed
    qed
  qed
qed

lemma absorb_reported_total:
  "(\<lambda>(b, i). (b, i\<lparr>total' := 0\<rparr>)) (absorb transformer it (Inr (d, Some (p\<lparr>Total' := t\<rparr>))) s')
     = (\<lambda>(b, i). (b, i\<lparr>total' := 0\<rparr>)) (absorb transformer it (Inr (d, Some p)) s')"
  by (cases "transformer d") (simp_all add: absorb_def with_reply_def)

lemma fetchNextPage_retotal:
  assumes g1: "\<not> (maxPages it > 0 \<and> pagesLoaded it \<ge> maxPages it)"
    and g2: "\<not> (total' it \<ge> 0 \<and> offset it \<ge> total' it)"
  shows "map_option (\<lambda>(b, i). (b, i\<lparr>total' := 0\<rparr>)) (fetchNextPage (retotal g fetcher) transformer it)
       = map_option (\<lambda>(b, i). (b, i\<lparr>total' := 0\<rparr>)) (fetchNextPage fetcher transformer it)"
proof (cases "fetcher (fstate it) (offset it) (limit it)")
  case None
  then show ?thesis
    by (simp add: fetchNextPage_uncapped[OF g1 g2] retotal_def)
next
  case (Some rs)
  obtain r s' where rs: "rs = (r, s')" by (cases rs)
  show ?thesis
  proof (cases r)
    case (Inl e)
    with Some rs show ?thesis by (simp add: fetchNextPage_uncapped[OF g1 g2] retotal_def)
  next
    case (Inr dp)
    obtain d pg where dp: "dp = (d, pg)" by (cases dp)
    show ?thesis
    proof (cases pg)
      case None
      with Some rs Inr dp show ?thesis by (simp add: fetchNextPage_uncapped[OF g1 g2] retotal_def)
    next
      case (Some p)
      with \<open>fetcher (fstate it) (offset it) (limit it) = Some rs\<close> rs Inr dp
        absorb_reported_total[where transformer=transformer and it=it and d=d and p=p
          and t="g (Total' p)" and s'=s']
      show ?thesis by (simp add: fetchNextPage_uncapped[OF g1 g2] retotal_def)
    qed
  qed
qed

lemma Next_retotal:
  "map_option (\<lambda>(b, i). (b, i\<lparr>total' := 0\<rparr>)) (Next (retotal g fetcher) transformer it)
     = map_option (\<lambda>(b, i). (b, i\<lparr>total' := 0\<rparr>)) (Next fetcher transformer it)"
proof (cases "done' it \<or> err it \<noteq> None")
  case True
  show ?thesis by (simp add: Next_stopped[OF True])
next
  case ns: False
  show ?thesis
  proof (cases "total' it \<ge> 0 \<and> count it \<ge> total' it")
    case True
    show ?thesis by (simp add: Next_total_reached[OF ns True])
  next
    case nt: False
    show ?thesis
    proof (cases "pageIndex it \<ge> length (page it)")
      case False
      show ?thesis by (simp add: Next_in_page[OF ns nt False])
    next
      case True
      note n = Next_fetch[OF ns nt True]
      show ?thesis
      proof (cases "(maxPages it > 0 \<and> pagesLoaded it \<ge> maxPages it) \<or> (total' it \<ge> 0 \<and> offset it \<ge> total' it)")
        case c: True
        show ?thesis by (simp add: n fetchNextPage_capped[OF c])
      next
        case False
        then have g1: "\<not> (maxPages it > 0 \<and> pagesLoaded it \<ge> maxPages it)"
          and g2: "\<not> (total' it \<ge> 0 \<and> offset it \<ge> total' it)" by blast+
        show ?thesis by (simp only: n fetchNextPage_retotal[OF g1 g2])
      qed
    qed
  qed
qed

text \<open>
  Claim C2, amended: for every iterator and every call of \<open>Next\<close> that returns, the
  stored total afterwards is the total of the reply's \<open>PaginationInfo\<close> when the call
  fetched a page and the reply carried one (whether larger or smaller than before), and
  is unchanged otherwise; the count of consumed items grows by exactly one when an item
  is yielded and not at all otherwise, so no item is counted twice; and the total is
  used only in the two checks \<open>count >= total\<close> and \<open>offset >= total\<close>. For the total
  stored before the call: another stored total \<open>t\<close> on which both checks come out the
  same gives the same result and the same iterator, up to the stored total itself. For
  the total the call receives and stores: were the fetcher to report any other total
  (\<open>g\<close> of it) in its place, the call would give the same result and the same
  iterator (items, position, offset, count, page size, page cap, error, fetcher state),
  up to the stored total itself.
\<close>

theorem total_overwritten_count_monotone:
  assumes nx: "Next fetcher transformer it = Some (b, it')"
    and c1: "(0 \<le> t \<and> t \<le> count it) = (0 \<le> total' it \<and> total' it \<le> count it)"
    and c2: "(0 \<le> t \<and> t \<le> offset it) = (0 \<le> total' it \<and> total' it \<le> offset it)"
  shows "total' it' = (if calls_fetcher it
                       then (case fetcher (fstate it) (offset it) (limit it) of
                               Some (Inr (d, Some p), s) \<Rightarrow> Total' p
                             | _ \<Rightarrow> total' it)
                       else total' it) \<and>
         count it' = count it + (if b then 1 else 0) \<and>
         map_option (\<lambda>(b, i). (b, i\<lparr>total' := 0\<rparr>)) (Next fetcher transformer (it\<lparr>total' := t\<rparr>))
           = Some (b, it'\<lparr>total' := 0\<rparr>) \<and>
         map_option (\<lambda>(b, i). (b, i\<lparr>total' := 0\<rparr>)) (Next (retotal g fetcher) transformer it)
           = Some (b, it'\<lparr>total' := 0\<rparr>)"
  using Next_total[OF nx] Next_count[OF nx] Next_total_irrelevant[OF c1 c2, of fetcher transformer]
    Next_retotal[of g fetcher transformer it] nx
  by simp

theorem total_overwritten_count_monotone_witness:
  "Next scripted Inr shrinking_it = Some (True, shrunk_it) \<and>
   total' shrinking_it = 10 \<and> total' shrunk_it = 1 \<and>
   count shrinking_it = 2 \<and> count shrunk_it = 3 \<and>
   map_option (\<lambda>(b, i). (b, i\<lparr>total' := 0\<rparr>)) (Next scripted Inr (shrinking_it\<lparr>total' := 7\<rparr>))
     = Some (True, shrunk_it\<lparr>total' := 0\<rparr>) \<and>
   map_option (\<lambda>(b, i). (b, i\<lparr>total' := 0\<rparr>)) (Next (retotal (\<lambda>t. t + 1000) scripted) Inr shrinking_it)
     = Some (True, shrunk_it\<lparr>total' := 0\<rparr>) \<and>
   map_option (total' \<circ> snd) (Next (retotal (\<lambda>t. t + 1000) scripted) Inr shrinking_it) = Some 1001"
proof -
  have nx: "Next scripted Inr shrinking_it = Some (True, shrunk_it)"
    by (simp add: shrinking_it_def shrunk_it_def Next_def fetchNextPage_def)
  have c1: "(0 \<le> (7::int) \<and> 7 \<le> count shrinking_it)
      = (0 \<le> total' shrinking_it \<and> total' shrinking_it \<le> count shrinking_it)"
    by (simp add: shrinking_it_def)
  have c2: "(0 \<le> (7::int) \<and> 7 \<le> offset shrinking_it)
      = (0 \<le> total' shrinking_it \<and> total' shrinking_it \<le> offset shrinking_it)"
    by (simp add: shrinking_it_def)
  have rt: "map_option (total' \<circ> snd) (Next (retotal (\<lambda>t. t + 1000) scripted) Inr shrinking_it) = Some 1001"
    by (simp add: shrinking_it_def Next_def fetchNextPage_def retotal_def)
  show ?thesis
    using total_overwritten_count_monotone [OF nx c1 c2, of "\<lambda>t. t + 1000"] nx rt
    by (simp add: shrinking_it_def shrunk_it_def)
qed

subsection \<open>Fail-stop\<close>

lemma logged_Some:
  assumes "logged fetcher st off lim = Some (r, st')"
  shows "st' = (fst st', snd st @ [r])"
  using assms by (cases st) (auto simp: logged_def split: option.splits)

lemma Next_true_inv:
  assumes nx: "Next (logged fetcher) transformer it = Some (True, it1)"
    and inv: "fail_stop_inv transformer it acc"
  shows "fail_stop_inv transformer it1 (acc @ [Item it1])"
  using nx
proof (cases rule: Next_cases)
  case in_page
  have "acc @ [page it ! pageIndex it] @ drop (Suc (pageIndex it)) (page it) = acc @ drop (pageIndex it) (page it)"
    using in_page(3) by (simp add: Cons_nth_drop_Suc)
  with inv in_page show ?thesis by (simp add: fail_stop_inv_def Item_def)
next
  case fetch
  from fetch(4) show ?thesis
  proof (cases rule: fetchNextPage_cases)
    case (fetched d pg s' x xs)
    from logged_Some[OF fetched(3)] obtain s1 where s': "s' = (s1, snd (fstate it) @ [Inr (d, pg)])"
      by blast
    have "acc = concat (map (reply_items transformer) (snd (fstate it)))"
      using inv fetch(3) by (simp add: fail_stop_inv_def)
    with inv fetched(4,6) s' show ?thesis
      by (simp add: fail_stop_inv_def Item_def with_reply_def)
  qed simp_all
qed simp_all

lemma Next_false_final:
  assumes nx: "Next (logged fetcher) transformer it = Some (False, it1)"
    and e: "err it1 \<noteq> None"
    and inv: "fail_stop_inv transformer it acc"
  shows "fail_stop_final transformer it1 acc"
  using nx
proof (cases rule: Next_cases)
  case stopped
  with e inv show ?thesis by (simp add: fail_stop_inv_def)
next
  case total_reached
  with e inv show ?thesis by (simp add: fail_stop_inv_def)
next
  case in_page
  then show ?thesis by simp
next
  case fetch
  have acc: "acc = concat (map (reply_items transformer) (snd (fstate it)))"
    using inv fetch(3) by (simp add: fail_stop_inv_def)
  from fetch(4) show ?thesis
  proof (cases rule: fetchNextPage_cases)
    case capped
    with e inv show ?thesis by (simp add: fail_stop_inv_def)
  next
    case (fetch_err e' s')
    from logged_Some[OF fetch_err(3)] obtain s1 where s': "s' = (s1, snd (fstate it) @ [Inl e'])"
      by blast
    with inv acc fetch_err(5) show ?thesis
      by (simp add: fail_stop_inv_def fail_stop_final_def)
  next
    case (decode_err d pg s' e')
    from logged_Some[OF decode_err(3)] obtain s1 where s': "s' = (s1, snd (fstate it) @ [Inr (d, pg)])"
      by blast
    with inv acc decode_err(4,6) show ?thesis
      by (simp add: fail_stop_inv_def fail_stop_final_def with_reply_def)
  next
    case (empty d pg s')
    with e inv show ?thesis by (simp add: fail_stop_inv_def with_reply_def)
  next
    case (fetched d pg s' x xs)
    then show ?thesis by simp
  qed
qed

lemma collect_fail_stop:
  "collect fuel (logged fetcher) transformer it acc = Some (ys, it') \<Longrightarrow> err it' \<noteq> None \<Longrightarrow>
   fail_stop_inv transformer it acc \<Longrightarrow> fail_stop_final transformer it' ys"
proof (induction fuel arbitrary: it acc)
  case 0
  then show ?case by simp
next
  case (Suc n)
  show ?case
  proof (cases "Next (logged fetcher) transformer it")
    case None
    with Suc.prems(1) show ?thesis by simp
  next
    case (Some bi)
    obtain b it1 where bi: "bi = (b, it1)" by (cases bi)
    show ?thesis
    proof (cases b)
      case True
      with Some bi Suc.prems(1)
      have c: "collect n (logged fetcher) transformer it1 (acc @ [Item it1]) = Some (ys, it')"
        by simp
      from Next_true_inv[OF _ Suc.prems(3)] Some bi True
      have "fail_stop_inv transformer it1 (acc @ [Item it1])" by simp
      from Suc.IH[OF c Suc.prems(2) this] show ?thesis .
    next
      case False
      with Some bi Suc.prems(1) have eq: "ys = acc" "it' = it1" by simp_all
      from Next_false_final[OF _ _ Suc.prems(3)] Some bi False Suc.prems(2) eq
      show ?thesis by simp
    qed
  qed
qed

lemma pulls_stopped:
  "done' it \<or> err it \<noteq> None \<Longrightarrow>
   pulls k fetcher transformer it = Some (replicate k (False, Item it), it)"
  by (induction k) (simp_all add: Next_stopped)

lemma log_inv_all_ok:
  assumes "log_inv transformer it" "err it = None"
  shows "\<forall>r \<in> set (snd (fstate it)). reply_error transformer r = None"
proof (cases "snd (fstate it)" rule: rev_cases)
  case Nil
  then show ?thesis by simp
next
  case (snoc rs r)
  with assms show ?thesis by (auto simp: log_inv_def)
qed

lemma log_inv_snoc:
  assumes ok: "\<forall>r \<in> set log. reply_error transformer r = None"
    and f: "snd (fstate it1) = log @ [r]" and e: "err it1 = reply_error transformer r"
  shows "log_inv transformer it1"
  using assms by (simp add: log_inv_def)

lemma Next_log_inv:
  assumes nx: "Next (logged fetcher) transformer it = Some (b, it1)"
    and inv: "log_inv transformer it"
  shows "log_inv transformer it1"
  using nx
proof (cases rule: Next_cases)
  case stopped
  with inv show ?thesis by simp
next
  case total_reached
  with inv show ?thesis by (auto simp: log_inv_def split: if_splits)
next
  case in_page
  with inv show ?thesis by (auto simp: log_inv_def split: if_splits)
next
  case fetch
  from fetch(1) have e0: "err it = None" by simp
  note ok = log_inv_all_ok[OF inv e0]
  from fetch(4) show ?thesis
  proof (cases rule: fetchNextPage_cases)
    case capped
    with inv show ?thesis by (auto simp: log_inv_def split: if_splits)
  next
    case (fetch_err e' s')
    from logged_Some[OF fetch_err(3)] obtain s1 where s': "s' = (s1, snd (fstate it) @ [Inl e'])"
      by blast
    show ?thesis
      by (rule log_inv_snoc[OF ok, where r="Inl e'"]) (simp_all add: fetch_err(5) s')
  next
    case (decode_err d pg s' e')
    from logged_Some[OF decode_err(3)] obtain s1 where s': "s' = (s1, snd (fstate it) @ [Inr (d, pg)])"
      by blast
    show ?thesis
      by (rule log_inv_snoc[OF ok, where r="Inr (d, pg)"]) (simp_all add: decode_err(4,6) s' with_reply_def)
  next
    case (empty d pg s')
    from logged_Some[OF empty(3)] obtain s1 where s': "s' = (s1, snd (fstate it) @ [Inr (d, pg)])"
      by blast
    show ?thesis
      by (rule log_inv_snoc[OF ok, where r="Inr (d, pg)"]) (simp_all add: empty(4,6) s' with_reply_def e0)
  next
    case (fetched d pg s' x xs)
    from logged_Some[OF fetched(3)] obtain s1 where s': "s' = (s1, snd (fstate it) @ [Inr (d, pg)])"
      by blast
    show ?thesis
      by (rule log_inv_snoc[OF ok, where r="Inr (d, pg)"]) (simp_all add: fetched(4,6) s' with_reply_def e0)
  qed
qed

lemma collect_log_inv:
  "collect fuel (logged fetcher) transformer it acc = Some (ys, it') \<Longrightarrow>
   log_inv transformer it \<Longrightarrow> log_inv transformer it'"
proof (induction fuel arbitrary: it acc)
  case 0
  then show ?case by simp
next
  case (Suc n)
  show ?case
  proof (cases "Next (logged fetcher) transformer it")
    case None
    with Suc.prems(1) show ?thesis by simp
  next
    case (Some bi)
    obtain b it1 where bi: "bi = (b, it1)" by (cases bi)
    from Some bi have nx: "Next (logged fetcher) transformer it = Some (b, it1)" by simp
    note i1 = Next_log_inv[OF nx Suc.prems(2)]
    show ?thesis
    proof (cases b)
      case True
      with Some bi Suc.prems(1)
      have "collect n (logged fetcher) transformer it1 (acc @ [Item it1]) = Some (ys, it')" by simp
      from Suc.IH[OF this i1] show ?thesis .
    next
      case False
      with Some bi Suc.prems(1) i1 show ?thesis by simp
    qed
  qed
qed

lemma collect_logged_two_then_fail:
  "collect (Suc (Suc (Suc 0))) (logged scripted) Inr (NewIterator 0 (two_then_fail, []) []) []
     = Some ([1, 2], failed_logged_it)"
  by (simp add: NewIterator_def two_then_fail_def failed_logged_it_def Next_def fetchNextPage_def
      Item_def logged_def)

lemma Next_failing_reply:
  assumes cf: "calls_fetcher it"
    and f: "fetcher (fstate it) (offset it) (limit it) = Some (r, s')"
    and re: "reply_error transformer r = Some e"
  shows "\<exists>it'. Next fetcher transformer it = Some (False, it') \<and> err it' = Some e \<and> fstate it' = s'"
proof -
  from cf have ns: "\<not> (done' it \<or> err it \<noteq> None)"
    and nt: "\<not> (total' it \<ge> 0 \<and> count it \<ge> total' it)"
    and pi: "pageIndex it \<ge> length (page it)"
    and g1: "\<not> (maxPages it > 0 \<and> pagesLoaded it \<ge> maxPages it)"
    and g2: "\<not> (total' it \<ge> 0 \<and> offset it \<ge> total' it)"
    unfolding calls_fetcher_def by blast+
  have nx: "Next fetcher transformer it = Some (absorb transformer it r s')"
    by (simp add: Next_fetch[OF ns nt pi] fetchNextPage_uncapped[OF g1 g2] f)
  show ?thesis
  proof (cases r)
    case (Inl e')
    with re nx show ?thesis by (simp add: absorb_def)
  next
    case (Inr dp)
    obtain d pg where dp: "dp = (d, pg)" by (cases dp)
    show ?thesis
    proof (cases "transformer d")
      case (Inl e')
      with re nx Inr dp show ?thesis by (simp add: absorb_def with_reply_def)
    next
      case r2: (Inr items)
      with re Inr dp show ?thesis by simp
    qed
  qed
qed

lemma pulls_collect:
  "pulls n fetcher transformer it0 = Some (obs, it) \<Longrightarrow> \<forall>ob \<in> set obs. fst ob \<Longrightarrow>
   collect (n + m) fetcher transformer it0 acc = collect m fetcher transformer it (acc @ map snd obs)"
proof (induction n arbitrary: it0 acc obs)
  case 0
  then show ?case by simp
next
  case (Suc n)
  from Suc.prems(1) obtain b it1 where nx: "Next fetcher transformer it0 = Some (b, it1)"
    by (auto split: option.splits)
  with Suc.prems(1) obtain obs1 where p1: "pulls n fetcher transformer it1 = Some (obs1, it)"
    and obs: "obs = (b, Item it1) # obs1"
    by (auto split: option.splits)
  from Suc.prems(2) obs have b: "b" and ok1: "\<forall>ob \<in> set obs1. fst ob" by simp_all
  from Suc.IH[OF p1 ok1, of "acc @ [Item it1]"] nx b obs show ?case by simp
qed

lemma pulls_take_loop:
  "pulls n fetcher transformer it0 = Some (obs, it) \<Longrightarrow> \<forall>ob \<in> set obs. fst ob \<Longrightarrow>
   take_loop (n + m) fetcher transformer it0 acc = take_loop m fetcher transformer it (acc @ map snd obs)"
proof (induction n arbitrary: it0 acc obs)
  case 0
  then show ?case by simp
next
  case (Suc n)
  from Suc.prems(1) obtain b it1 where nx: "Next fetcher transformer it0 = Some (b, it1)"
    by (auto split: option.splits)
  with Suc.prems(1) obtain obs1 where p1: "pulls n fetcher transformer it1 = Some (obs1, it)"
    and obs: "obs = (b, Item it1) # obs1"
    by (auto split: option.splits)
  from Suc.prems(2) obs have b: "b" and ok1: "\<forall>ob \<in> set obs1. fst ob" by simp_all
  from Suc.IH[OF p1 ok1, of "acc @ [Item it1]"] nx b obs show ?case by simp
qed

lemma collect_failing_reply:
  assumes pl: "pulls n fetcher transformer it0 = Some (obs, it)"
    and ok: "\<forall>ob \<in> set obs. fst ob"
    and cf: "calls_fetcher it"
    and f: "fetcher (fstate it) (offset it) (limit it) = Some (r, s')"
    and re: "reply_error transformer r = Some e"
  shows "\<exists>it'. Next fetcher transformer it = Some (False, it') \<and> err it' = Some e \<and> fstate it' = s' \<and>
           collect (n + Suc m) fetcher transformer it0 [] = Some (map snd obs, it') \<and>
           take_loop (n + Suc m) fetcher transformer it0 [] = Some (map snd obs, it')"
proof -
  from Next_failing_reply[where fetcher=fetcher and transformer=transformer, OF cf f re] obtain it' where
    nx: "Next fetcher transformer it = Some (False, it')" and e: "err it' = Some e"
    and s: "fstate it' = s'"
    by blast
  have "collect (n + Suc m) fetcher transformer it0 [] = collect (Suc m) fetcher transformer it ([] @ map snd obs)"
    by (rule pulls_collect[OF pl ok])
  then have c: "collect (n + Suc m) fetcher transformer it0 [] = Some (map snd obs, it')"
    using nx by simp
  have "take_loop (n + Suc m) fetcher transformer it0 [] = take_loop (Suc m) fetcher transformer it ([] @ map snd obs)"
    by (rule pulls_take_loop[OF pl ok])
  then have t: "take_loop (n + Suc m) fetcher transformer it0 [] = Some (map snd obs, it')"
    using nx by simp
  from c t nx e s show ?thesis by blast
qed


lemma pulls_inv:
  "pulls n (logged fetcher) transformer it0 = Some (obs, it) \<Longrightarrow> \<forall>ob \<in> set obs. fst ob \<Longrightarrow>
   fail_stop_inv transformer it0 acc \<Longrightarrow> fail_stop_inv transformer it (acc @ map snd obs)"
proof (induction n arbitrary: it0 acc obs)
  case 0
  then show ?case by simp
next
  case (Suc n)
  from Suc.prems(1) obtain b it1 where nx: "Next (logged fetcher) transformer it0 = Some (b, it1)"
    by (auto split: option.splits)
  with Suc.prems(1) obtain obs1 where p1: "pulls n (logged fetcher) transformer it1 = Some (obs1, it)"
    and obs: "obs = (b, Item it1) # obs1"
    by (auto split: option.splits)
  from Suc.prems(2) obs have b: "b" and ok1: "\<forall>ob \<in> set obs1. fst ob" by simp_all
  from nx b have nx': "Next (logged fetcher) transformer it0 = Some (True, it1)" by simp
  from Suc.IH[OF p1 ok1 Next_true_inv[OF nx' Suc.prems(3)]] obs show ?case by simp
qed

lemma collect_logged_two_then_garbled:
  "collect (Suc (Suc (Suc 0))) (logged scripted) strict_decode (NewIterator 0 (two_then_garbled, []) []) []
     = Some ([1, 2], garbled_logged_it)"
  by (simp add: NewIterator_def two_then_garbled_def garbled_logged_it_def Next_def fetchNextPage_def
      Item_def logged_def strict_decode_def)

lemma pulls_logged_two_then_fail:
  "pulls (Suc (Suc 0)) (logged scripted) Inr (NewIterator 0 (two_then_fail, []) [])
     = Some ([(True, 1), (True, 2)],
             two_consumed ([Inl (TransportError ''reset'')], [Inr ([1, 2], None)]))"
  by (simp add: NewIterator_def two_then_fail_def two_consumed_def Next_def fetchNextPage_def
      Item_def logged_def)

lemma pulls_logged_two_then_garbled:
  "pulls (Suc (Suc 0)) (logged scripted) strict_decode (NewIterator 0 (two_then_garbled, []) [])
     = Some ([(True, 1), (True, 2)], two_consumed ([Inr ([0], None)], [Inr ([1, 2], None)]))"
  by (simp add: NewIterator_def two_then_garbled_def two_consumed_def Next_def fetchNextPage_def
      Item_def logged_def strict_decode_def)

text \<open>
  Claim C3, over a new iterator and any fetcher, logged. First: whenever a drain
  returns, no reply but the last one logged is a failure (after a failed fetch no other
  fetch is made), and the error of the iterator is exactly the failure of the last
  reply: the fetcher's error, or the transformer's error on the page's data, wrapped; it
  is nil when that reply is a page that decoded, or when no fetch was made. And when
  the error is not nil, page \<open>k\<close> being the last one logged: the items yielded are
  exactly the items of the pages \<open>1..k-1\<close>, in order, and any number of further calls
  of \<open>Next\<close> return false and leave the iterator as it is: same error, same log, so no
  further fetch. Second, that the failure does end the sequence in this way: when
  \<open>n\<close> calls of \<open>Next\<close> have each yielded an item and the next call reaches the
  fetcher, whose reply \<open>r\<close> is a failure \<open>e\<close> (an error of the fetcher, or a page
  whose data the transformer fails to decode), then the items yielded so far are
  exactly the items of the pages logged before \<open>r\<close>, that call of \<open>Next\<close> does return,
  it returns false with \<open>Err()\<close> equal to \<open>e\<close> and \<open>r\<close> the last reply logged, and a
  drain of the new iterator (with more than \<open>n\<close> units of fuel) returns exactly those
  items and leaves that same error.
\<close>

theorem iterator_fail_stop:
  "(collect fuel (logged fetcher) transformer (NewIterator z (s0, []) opts) [] = Some (ys, it')
      \<longrightarrow> (\<forall>r \<in> set (butlast (snd (fstate it'))). reply_error transformer r = None) \<and>
          Err it' = (if snd (fstate it') = [] then None
                     else reply_error transformer (last (snd (fstate it')))) \<and>
          (Err it' \<noteq> None \<longrightarrow>
             ys = concat (map (reply_items transformer) (butlast (snd (fstate it')))) \<and>
             pulls k (logged fetcher) transformer it' = Some (replicate k (False, Item it'), it'))) \<and>
   (pulls n (logged fetcher) transformer (NewIterator z (s0, []) opts) = Some (obs, it) \<and>
    (\<forall>ob \<in> set obs. fst ob) \<and> calls_fetcher it \<and>
    logged fetcher (fstate it) (offset it) (limit it) = Some (r, st) \<and>
    reply_error transformer r = Some e
      \<longrightarrow> map snd obs = concat (map (reply_items transformer) (snd (fstate it))) \<and>
          snd st = snd (fstate it) @ [r] \<and>
          map_option fst (Next (logged fetcher) transformer it) = Some False \<and>
          map_option (\<lambda>(b, it'). (Err it', fstate it')) (Next (logged fetcher) transformer it)
            = Some (Some e, st) \<and>
          map_option (\<lambda>(ys, it'). (ys, Err it', fstate it'))
            (collect (n + Suc m) (logged fetcher) transformer (NewIterator z (s0, []) opts) [])
            = Some (map snd obs, Some e, st))"
proof -
  have safety: "collect fuel (logged fetcher) transformer (NewIterator z (s0, []) opts) [] = Some (ys, it')
      \<longrightarrow> (\<forall>r \<in> set (butlast (snd (fstate it'))). reply_error transformer r = None) \<and>
          Err it' = (if snd (fstate it') = [] then None
                     else reply_error transformer (last (snd (fstate it')))) \<and>
          (Err it' \<noteq> None \<longrightarrow>
             ys = concat (map (reply_items transformer) (butlast (snd (fstate it')))) \<and>
             pulls k (logged fetcher) transformer it' = Some (replicate k (False, Item it'), it'))"
  proof
    assume run: "collect fuel (logged fetcher) transformer (NewIterator z (s0, []) opts) [] = Some (ys, it')"
    have "log_inv transformer (NewIterator z (s0, []) opts)"
      by (simp add: log_inv_def NewIterator_fresh)
    from collect_log_inv[OF run this] have li: "log_inv transformer it'" .
    have "Err it' \<noteq> None \<longrightarrow>
            ys = concat (map (reply_items transformer) (butlast (snd (fstate it')))) \<and>
            pulls k (logged fetcher) transformer it' = Some (replicate k (False, Item it'), it')"
    proof
      assume e: "Err it' \<noteq> None"
      have "fail_stop_inv transformer (NewIterator z (s0, []) opts) []"
        by (simp add: fail_stop_inv_def NewIterator_fresh)
      from collect_fail_stop[OF run _ this] e
      have "fail_stop_final transformer it' ys" by (simp add: Err_def)
      moreover have "pulls k (logged fetcher) transformer it' = Some (replicate k (False, Item it'), it')"
        using e by (intro pulls_stopped) (simp add: Err_def)
      ultimately show "ys = concat (map (reply_items transformer) (butlast (snd (fstate it')))) \<and>
            pulls k (logged fetcher) transformer it' = Some (replicate k (False, Item it'), it')"
        by (simp add: fail_stop_final_def)
    qed
    with li show "(\<forall>r \<in> set (butlast (snd (fstate it'))). reply_error transformer r = None) \<and>
          Err it' = (if snd (fstate it') = [] then None
                     else reply_error transformer (last (snd (fstate it')))) \<and>
          (Err it' \<noteq> None \<longrightarrow>
             ys = concat (map (reply_items transformer) (butlast (snd (fstate it')))) \<and>
             pulls k (logged fetcher) transformer it' = Some (replicate k (False, Item it'), it'))"
      by (simp add: log_inv_def Err_def)
  qed
  have progress: "pulls n (logged fetcher) transformer (NewIterator z (s0, []) opts) = Some (obs, it) \<and>
    (\<forall>ob \<in> set obs. fst ob) \<and> calls_fetcher it \<and>
    logged fetcher (fstate it) (offset it) (limit it) = Some (r, st) \<and>
    reply_error transformer r = Some e
      \<longrightarrow> map snd obs = concat (map (reply_items transformer) (snd (fstate it))) \<and>
          snd st = snd (fstate it) @ [r] \<and>
          map_option fst (Next (logged fetcher) transformer it) = Some False \<and>
          map_option (\<lambda>(b, it'). (Err it', fstate it')) (Next (logged fetcher) transformer it)
            = Some (Some e, st) \<and>
          map_option (\<lambda>(ys, it'). (ys, Err it', fstate it'))
            (collect (n + Suc m) (logged fetcher) transformer (NewIterator z (s0, []) opts) [])
            = Some (map snd obs, Some e, st)"
  proof (rule impI, elim conjE)
    assume pl: "pulls n (logged fetcher) transformer (NewIterator z (s0, []) opts) = Some (obs, it)"
      and ok: "\<forall>ob \<in> set obs. fst ob" and cf: "calls_fetcher it"
      and f: "logged fetcher (fstate it) (offset it) (limit it) = Some (r, st)"
      and re: "reply_error transformer r = Some e"
    have "fail_stop_inv transformer (NewIterator z (s0, []) opts) []"
      by (simp add: fail_stop_inv_def NewIterator_fresh)
    from pulls_inv[OF pl ok this] have inv: "fail_stop_inv transformer it (map snd obs)" by simp
    from cf have "pageIndex it \<ge> length (page it)" by (simp add: calls_fetcher_def)
    with inv have items: "map snd obs = concat (map (reply_items transformer) (snd (fstate it)))"
      by (simp add: fail_stop_inv_def)
    from logged_Some[OF f] have lg: "snd st = snd (fstate it) @ [r]"
      by (metis snd_conv)
    from collect_failing_reply[where fetcher="logged fetcher" and transformer=transformer and m=m,
        OF pl ok cf f re]
    obtain it2 where nx: "Next (logged fetcher) transformer it = Some (False, it2)"
      and e2: "err it2 = Some e" and s2: "fstate it2 = st"
      and c: "collect (n + Suc m) (logged fetcher) transformer (NewIterator z (s0, []) opts) []
               = Some (map snd obs, it2)"
      by blast
    show "map snd obs = concat (map (reply_items transformer) (snd (fstate it))) \<and>
          snd st = snd (fstate it) @ [r] \<and>
          map_option fst (Next (logged fetcher) transformer it) = Some False \<and>
          map_option (\<lambda>(b, it'). (Err it', fstate it')) (Next (logged fetcher) transformer it)
            = Some (Some e, st) \<and>
          map_option (\<lambda>(ys, it'). (ys, Err it', fstate it'))
            (collect (n + Suc m) (logged fetcher) transformer (NewIterator z (s0, []) opts) [])
            = Some (map snd obs, Some e, st)"
      using items lg nx e2 s2 c by (simp add: Err_def del: collect.simps)
  qed
  from safety progress show ?thesis by (rule conjI)
qed

theorem iterator_fail_stop_witness:
  "collect (Suc (Suc (Suc 0))) (logged scripted) Inr (NewIterator 0 (two_then_fail, []) []) []
     = Some ([1, 2], failed_logged_it) \<and>
   Err failed_logged_it = Some (TransportError ''reset'') \<and>
   snd (fstate failed_logged_it) = [Inr ([1, 2], None), Inl (TransportError ''reset'')] \<and>
   reply_error Inr (Inr ([1, 2], None) :: nat list page_reply) = None \<and>
   [1, 2] = concat (map (reply_items Inr) (butlast (snd (fstate failed_logged_it)))) \<and>
   pulls (Suc (Suc 0)) (logged scripted) Inr failed_logged_it
     = Some ([(False, 2), (False, 2)], failed_logged_it) \<and>
   pulls (Suc (Suc 0)) (logged scripted) Inr (NewIterator 0 (two_then_fail, []) [])
     = Some ([(True, 1), (True, 2)],
             two_consumed ([Inl (TransportError ''reset'')], [Inr ([1, 2], None)])) \<and>
   map_option fst (Next (logged scripted) Inr
       (two_consumed ([Inl (TransportError ''reset'')], [Inr ([1, 2], None)]))) = Some False \<and>
   map_option (\<lambda>(b, it'). (Err it', fstate it')) (Next (logged scripted) Inr
       (two_consumed ([Inl (TransportError ''reset'')], [Inr ([1, 2], None)])))
     = Some (Some (TransportError ''reset''), ([], two_then_fail)) \<and>
   map_option (\<lambda>(ys, it'). (ys, Err it', fstate it'))
       (collect (Suc (Suc 0) + Suc 0) (logged scripted) Inr (NewIterator 0 (two_then_fail, []) []) [])
     = Some ([1, 2], Some (TransportError ''reset''), ([], two_then_fail)) \<and>
   collect (Suc (Suc (Suc 0))) (logged scripted) strict_decode (NewIterator 0 (two_then_garbled, []) []) []
     = Some ([1, 2], garbled_logged_it) \<and>
   Err garbled_logged_it = Some (TransformError (UnmarshalError ''zero'')) \<and>
   snd (fstate garbled_logged_it) = [Inr ([1, 2], None), Inr ([0], None)] \<and>
   reply_error strict_decode (Inr ([0], None)) = Some (TransformError (UnmarshalError ''zero'')) \<and>
   pulls (Suc (Suc 0)) (logged scripted) strict_decode garbled_logged_it
     = Some ([(False, 2), (False, 2)], garbled_logged_it) \<and>
   pulls (Suc (Suc 0)) (logged scripted) strict_decode (NewIterator 0 (two_then_garbled, []) [])
     = Some ([(True, 1), (True, 2)], two_consumed ([Inr ([0], None)], [Inr ([1, 2], None)])) \<and>
   map_option fst (Next (logged scripted) strict_decode
       (two_consumed ([Inr ([0], None)], [Inr ([1, 2], None)]))) = Some False \<and>
   map_option (\<lambda>(b, it'). (Err it', fstate it')) (Next (logged scripted) strict_decode
       (two_consumed ([Inr ([0], None)], [Inr ([1, 2], None)])))
     = Some (Some (TransformError (UnmarshalError ''zero'')), ([], two_then_garbled)) \<and>
   map_option (\<lambda>(ys, it'). (ys, Err it', fstate it'))
       (collect (Suc (Suc 0) + Suc 0) (logged scripted) strict_decode
          (NewIterator 0 (two_then_garbled, []) []) [])
     = Some ([1, 2], Some (TransformError (UnmarshalError ''zero'')), ([], two_then_garbled))"
proof -
  note fetch_case = iterator_fail_stop [where fuel="Suc (Suc (Suc 0))" and fetcher=scripted
      and transformer=Inr and z=0 and ?s0.0=two_then_fail and opts="[]" and ys="[1, 2]"
      and it'=failed_logged_it and k="Suc (Suc 0)" and n="Suc (Suc 0)"
      and obs="[(True, 1), (True, 2)]"
      and it="two_consumed ([Inl (TransportError ''reset'')], [Inr ([1, 2], None)])"
      and r="Inl (TransportError ''reset'')" and st="([], two_then_fail)"
      and e="TransportError ''reset''" and m=0]
  note decode_case = iterator_fail_stop [where fuel="Suc (Suc (Suc 0))" and fetcher=scripted
      and transformer=strict_decode and z=0 and ?s0.0=two_then_garbled and opts="[]" and ys="[1, 2]"
      and it'=garbled_logged_it and k="Suc (Suc 0)" and n="Suc (Suc 0)"
      and obs="[(True, 1), (True, 2)]"
      and it="two_consumed ([Inr ([0], None)], [Inr ([1, 2], None)])"
      and r="Inr ([0], None)" and st="([], two_then_garbled)"
      and e="TransformError (UnmarshalError ''zero'')" and m=0]
  have e1: "Err failed_logged_it \<noteq> None"
    by (simp add: Err_def failed_logged_it_def)
  have e2: "Err garbled_logged_it \<noteq> None"
    by (simp add: Err_def garbled_logged_it_def)
  have p1: "pulls (Suc (Suc 0)) (logged scripted) Inr (NewIterator 0 (two_then_fail, []) [])
        = Some ([(True, 1), (True, 2)],
                two_consumed ([Inl (TransportError ''reset'')], [Inr ([1, 2], None)])) \<and>
      (\<forall>ob \<in> set [(True, 1::nat), (True, 2)]. fst ob) \<and>
      calls_fetcher (two_consumed ([Inl (TransportError ''reset'')], [Inr ([1::nat, 2], None)])) \<and>
      logged scripted (fstate (two_consumed ([Inl (TransportError ''reset'')], [Inr ([1::nat, 2], None)])))
          (offset (two_consumed ([Inl (TransportError ''reset'')], [Inr ([1::nat, 2], None)])))
          (limit (two_consumed ([Inl (TransportError ''reset'')], [Inr ([1::nat, 2], None)])))
        = Some (Inl (TransportError ''reset''), ([], two_then_fail)) \<and>
      reply_error Inr (Inl (TransportError ''reset'')) = Some (TransportError ''reset'')"
    using pulls_logged_two_then_fail
    by (intro conjI) (simp_all add: calls_fetcher_def two_consumed_def logged_def two_then_fail_def)
  have p2: "pulls (Suc (Suc 0)) (logged scripted) strict_decode (NewIterator 0 (two_then_garbled, []) [])
        = Some ([(True, 1), (True, 2)], two_consumed ([Inr ([0], None)], [Inr ([1, 2], None)])) \<and>
      (\<forall>ob \<in> set [(True, 1::nat), (True, 2)]. fst ob) \<and>
      calls_fetcher (two_consumed ([Inr ([0::nat], None)], [Inr ([1::nat, 2], None)])) \<and>
      logged scripted (fstate (two_consumed ([Inr ([0::nat], None)], [Inr ([1::nat, 2], None)])))
          (offset (two_consumed ([Inr ([0::nat], None)], [Inr ([1::nat, 2], None)])))
          (limit (two_consumed ([Inr ([0::nat], None)], [Inr ([1::nat, 2], None)])))
        = Some (Inr ([0], None), ([], two_then_garbled)) \<and>
      reply_error strict_decode (Inr ([0], None)) = Some (TransformError (UnmarshalError ''zero''))"
    using pulls_logged_two_then_garbled
    by (intro conjI)
       (simp_all add: calls_fetcher_def two_consumed_def logged_def two_then_garbled_def strict_decode_def)
  note s1 = fetch_case[THEN conjunct1, THEN mp, OF collect_logged_two_then_fail]
  note s2 = decode_case[THEN conjunct1, THEN mp, OF collect_logged_two_then_garbled]
  note facts = s1[THEN conjunct1] s1[THEN conjunct2, THEN conjunct1]
    s1[THEN conjunct2, THEN conjunct2, THEN mp, OF e1]
    fetch_case[THEN conjunct2, THEN mp, OF p1]
    s2[THEN conjunct1] s2[THEN conjunct2, THEN conjunct1]
    s2[THEN conjunct2, THEN conjunct2, THEN mp, OF e2]
    decode_case[THEN conjunct2, THEN mp, OF p2]
  have l1: "snd (fstate failed_logged_it) = [Inr ([1, 2], None), Inl (TransportError ''reset'')]"
    by (simp add: failed_logged_it_def two_then_fail_def)
  have l2: "snd (fstate garbled_logged_it) = [Inr ([1, 2], None), Inr ([0], None)]"
    by (simp add: garbled_logged_it_def two_then_garbled_def)
  have i1: "Item failed_logged_it = 2" by (simp add: Item_def failed_logged_it_def)
  have i2: "Item garbled_logged_it = 2" by (simp add: Item_def garbled_logged_it_def)
  have r2: "reply_error strict_decode (Inr ([0], None)) = Some (TransformError (UnmarshalError ''zero''))"
    by (simp add: strict_decode_def)
  from facts l1 l2 i1 i2 r2 collect_logged_two_then_fail collect_logged_two_then_garbled
    pulls_logged_two_then_fail pulls_logged_two_then_garbled
  show ?thesis
    by (intro conjI)
       (simp_all add: two_then_fail_def two_then_garbled_def strict_decode_def
          del: collect.simps pulls.simps)
qed

subsection \<open>Bulk consumption after an error\<close>

lemma collect_two_then_fail:
  "collect (Suc (Suc (Suc 0))) scripted Inr (NewIterator 0 two_then_fail []) [] = Some ([1, 2], failed_it)"
  by (simp add: NewIterator_def two_then_fail_def failed_it_def Next_def fetchNextPage_def Item_def)

lemma take_two_then_fail:
  "take_loop (nat 5) scripted Inr (NewIterator 0 two_then_fail []) [] = Some ([1, 2], failed_it)"
  by (simp add: NewIterator_def two_then_fail_def failed_it_def Next_def fetchNextPage_def Item_def
      eval_nat_numeral)

lemma pulls_two_then_fail:
  "pulls (Suc (Suc 0)) scripted Inr (NewIterator 0 two_then_fail [])
     = Some ([(True, 1), (True, 2)], two_consumed [Inl (TransportError ''reset'')])"
  by (simp add: NewIterator_def two_then_fail_def two_consumed_def Next_def fetchNextPage_def Item_def)

lemma pulls_two_then_garbled:
  "pulls (Suc (Suc 0)) scripted strict_decode (NewIterator 0 two_then_garbled [])
     = Some ([(True, 1), (True, 2)], two_consumed [Inr ([0], None)])"
  by (simp add: NewIterator_def two_then_garbled_def two_consumed_def Next_def fetchNextPage_def
      Item_def strict_decode_def)

lemma collect_two_then_garbled:
  "collect (Suc (Suc (Suc 0))) scripted strict_decode (NewIterator 0 two_then_garbled []) []
     = Some ([1, 2], garbled_it)"
  by (simp add: NewIterator_def two_then_garbled_def garbled_it_def Next_def fetchNextPage_def
      Item_def strict_decode_def)

lemma take_two_then_garbled:
  "take_loop (nat 3) scripted strict_decode (NewIterator 0 two_then_garbled []) []
     = Some ([1, 2], garbled_it)"
  by (simp add: NewIterator_def two_then_garbled_def garbled_it_def Next_def fetchNextPage_def
      Item_def strict_decode_def eval_nat_numeral)

text \<open>
  Claim C10: when the loop of \<open>All\<close> or of \<open>Take(n)\<close> ends with an error recorded in
  the iterator, the call returns the nil slice and that error, whatever items \<open>acc\<close>
  the loop had accumulated. And a fetch or decode error during the call does end the
  loop in that way: when, from the iterator the call is made on, \<open>k\<close> calls of \<open>Next\<close>
  each yield an item and the next call reaches the fetcher, whose reply is a failure
  \<open>e\<close> (an error of the fetcher, or a page whose data the transformer fails to
  decode), then the loop of \<open>All\<close>, and that of \<open>Take(n)\<close> for \<open>n > k\<close>, returns
  having accumulated those \<open>k\<close> items, and the call returns the nil slice and \<open>e\<close>.
\<close>

theorem bulk_error_discards_partial:
  "(collect fuel fetcher transformer it [] = Some (acc, it') \<and> Err it' = Some e
      \<longrightarrow> All' fuel fetcher transformer it = Some (([], Some e), it')) \<and>
   (take_loop (nat n) fetcher transformer it [] = Some (acc, it') \<and> Err it' = Some e
      \<longrightarrow> Take n fetcher transformer it = Some (([], Some e), it')) \<and>
   (pulls k fetcher transformer it = Some (obs, it1) \<and> (\<forall>ob \<in> set obs. fst ob) \<and>
    calls_fetcher it1 \<and> fetcher (fstate it1) (offset it1) (limit it1) = Some (r, s') \<and>
    reply_error transformer r = Some e
      \<longrightarrow> map_option fst (collect (k + Suc m) fetcher transformer it []) = Some (map snd obs) \<and>
          map_option fst (All' (k + Suc m) fetcher transformer it) = Some ([], Some e) \<and>
          map_option fst (take_loop (k + Suc m) fetcher transformer it []) = Some (map snd obs) \<and>
          map_option fst (Take (int (k + Suc m)) fetcher transformer it) = Some ([], Some e))"
proof -
  have old: "(collect fuel fetcher transformer it [] = Some (acc, it') \<and> Err it' = Some e
      \<longrightarrow> All' fuel fetcher transformer it = Some (([], Some e), it')) \<and>
   (take_loop (nat n) fetcher transformer it [] = Some (acc, it') \<and> Err it' = Some e
      \<longrightarrow> Take n fetcher transformer it = Some (([], Some e), it'))"
    by (simp add: All'_def Take_def Err_def)
  have new: "pulls k fetcher transformer it = Some (obs, it1) \<and> (\<forall>ob \<in> set obs. fst ob) \<and>
    calls_fetcher it1 \<and> fetcher (fstate it1) (offset it1) (limit it1) = Some (r, s') \<and>
    reply_error transformer r = Some e
      \<longrightarrow> map_option fst (collect (k + Suc m) fetcher transformer it []) = Some (map snd obs) \<and>
          map_option fst (All' (k + Suc m) fetcher transformer it) = Some ([], Some e) \<and>
          map_option fst (take_loop (k + Suc m) fetcher transformer it []) = Some (map snd obs) \<and>
          map_option fst (Take (int (k + Suc m)) fetcher transformer it) = Some ([], Some e)"
  proof (rule impI, elim conjE)
    assume pl: "pulls k fetcher transformer it = Some (obs, it1)" and ok: "\<forall>ob \<in> set obs. fst ob"
      and cf: "calls_fetcher it1"
      and f: "fetcher (fstate it1) (offset it1) (limit it1) = Some (r, s')"
      and re: "reply_error transformer r = Some e"
    from collect_failing_reply[where fetcher=fetcher and transformer=transformer and m=m, OF pl ok cf f re] obtain it2 where
      e: "err it2 = Some e"
      and c: "collect (k + Suc m) fetcher transformer it [] = Some (map snd obs, it2)"
      and t: "take_loop (k + Suc m) fetcher transformer it [] = Some (map snd obs, it2)"
      by blast
    have t': "take_loop (nat (int (k + Suc m))) fetcher transformer it [] = Some (map snd obs, it2)"
      using t by (simp only: nat_int)
    show "map_option fst (collect (k + Suc m) fetcher transformer it []) = Some (map snd obs) \<and>
          map_option fst (All' (k + Suc m) fetcher transformer it) = Some ([], Some e) \<and>
          map_option fst (take_loop (k + Suc m) fetcher transformer it []) = Some (map snd obs) \<and>
          map_option fst (Take (int (k + Suc m)) fetcher transformer it) = Some ([], Some e)"
      using e c t t' by (simp add: All'_def Take_def del: collect.simps take_loop.simps)
  qed
  from old new show ?thesis by blast
qed

theorem bulk_error_discards_partial_witness:
  "collect (Suc (Suc (Suc 0))) scripted Inr (NewIterator 0 two_then_fail []) [] = Some ([1, 2], failed_it) \<and>
   All' (Suc (Suc (Suc 0))) scripted Inr (NewIterator 0 two_then_fail [])
     = Some (([], Some (TransportError ''reset'')), failed_it) \<and>
   take_loop (nat 5) scripted Inr (NewIterator 0 two_then_fail []) [] = Some ([1, 2], failed_it) \<and>
   Take 5 scripted Inr (NewIterator 0 two_then_fail [])
     = Some (([], Some (TransportError ''reset'')), failed_it) \<and>
   pulls (Suc (Suc 0)) scripted Inr (NewIterator 0 two_then_fail [])
     = Some ([(True, 1), (True, 2)], two_consumed [Inl (TransportError ''reset'')]) \<and>
   map_option fst (All' (Suc (Suc 0) + Suc 0) scripted Inr (NewIterator 0 two_then_fail []))
     = Some ([], Some (TransportError ''reset'')) \<and>
   map_option fst (Take (int (Suc (Suc 0) + Suc 0)) scripted Inr (NewIterator 0 two_then_fail []))
     = Some ([], Some (TransportError ''reset'')) \<and>
   collect (Suc (Suc (Suc 0))) scripted strict_decode (NewIterator 0 two_then_garbled []) []
     = Some ([1, 2], garbled_it) \<and>
   All' (Suc (Suc (Suc 0))) scripted strict_decode (NewIterator 0 two_then_garbled [])
     = Some (([], Some (TransformError (UnmarshalError ''zero''))), garbled_it) \<and>
   Take 3 scripted strict_decode (NewIterator 0 two_then_garbled [])
     = Some (([], Some (TransformError (UnmarshalError ''zero''))), garbled_it) \<and>
   pulls (Suc (Suc 0)) scripted strict_decode (NewIterator 0 two_then_garbled [])
     = Some ([(True, 1), (True, 2)], two_consumed [Inr ([0], None)]) \<and>
   reply_error strict_decode (Inr ([0], None)) = Some (TransformError (UnmarshalError ''zero'')) \<and>
   map_option fst (collect (Suc (Suc 0) + Suc 0) scripted strict_decode (NewIterator 0 two_then_garbled []) [])
     = Some [1, 2] \<and>
   map_option fst (All' (Suc (Suc 0) + Suc 0) scripted strict_decode (NewIterator 0 two_then_garbled []))
     = Some ([], Some (TransformError (UnmarshalError ''zero''))) \<and>
   map_option fst (Take (int (Suc (Suc 0) + Suc 0)) scripted strict_decode (NewIterator 0 two_then_garbled []))
     = Some ([], Some (TransformError (UnmarshalError ''zero'')))"
proof -
  have e1: "Err failed_it = Some (TransportError ''reset'')"
    by (simp add: Err_def failed_it_def)
  have e2: "Err garbled_it = Some (TransformError (UnmarshalError ''zero''))"
    by (simp add: Err_def garbled_it_def)
  have c1: "calls_fetcher (two_consumed [Inl (TransportError ''reset'')])"
    and c2: "calls_fetcher (two_consumed [Inr ([0::nat], None)])"
    by (simp_all add: calls_fetcher_def two_consumed_def)
  have f1: "scripted (fstate (two_consumed [Inl (TransportError ''reset'')]))
              (offset (two_consumed [Inl (TransportError ''reset'')]))
              (limit (two_consumed [Inl (TransportError ''reset'')]))
            = Some (Inl (TransportError ''reset''), [])"
    and f2: "scripted (fstate (two_consumed [Inr ([0::nat], None)]))
              (offset (two_consumed [Inr ([0::nat], None)]))
              (limit (two_consumed [Inr ([0::nat], None)]))
            = Some (Inr ([0], None), [])"
    by (simp_all add: two_consumed_def)
  have r2: "reply_error strict_decode (Inr ([0], None)) = Some (TransformError (UnmarshalError ''zero''))"
    by (simp add: strict_decode_def)
  note fetch_case = bulk_error_discards_partial [where fuel="Suc (Suc (Suc 0))" and fetcher=scripted
        and transformer=Inr and it="NewIterator 0 two_then_fail []" and acc="[1, 2]"
        and it'=failed_it and e="TransportError ''reset''" and n=5 and k="Suc (Suc 0)"
        and obs="[(True, 1), (True, 2)]" and ?it1.0="two_consumed [Inl (TransportError ''reset'')]"
        and r="Inl (TransportError ''reset'')" and s'="[]" and m=0]
  note decode_case = bulk_error_discards_partial [where fuel="Suc (Suc (Suc 0))" and fetcher=scripted
        and transformer=strict_decode and it="NewIterator 0 two_then_garbled []" and acc="[1, 2]"
        and it'=garbled_it and e="TransformError (UnmarshalError ''zero'')" and n=3 and k="Suc (Suc 0)"
        and obs="[(True, 1), (True, 2)]" and ?it1.0="two_consumed [Inr ([0], None)]"
        and r="Inr ([0], None)" and s'="[]" and m=0]
  have a1: "collect (Suc (Suc (Suc 0))) scripted Inr (NewIterator 0 two_then_fail []) [] = Some ([1, 2], failed_it)
      \<and> Err failed_it = Some (TransportError ''reset'')"
    using collect_two_then_fail e1 by (intro conjI)
  have t1: "take_loop (nat 5) scripted Inr (NewIterator 0 two_then_fail []) [] = Some ([1, 2], failed_it)
      \<and> Err failed_it = Some (TransportError ''reset'')"
    using take_two_then_fail e1 by (intro conjI)
  have p1: "pulls (Suc (Suc 0)) scripted Inr (NewIterator 0 two_then_fail [])
        = Some ([(True, 1), (True, 2)], two_consumed [Inl (TransportError ''reset'')]) \<and>
      (\<forall>ob \<in> set [(True, 1::nat), (True, 2)]. fst ob) \<and>
      calls_fetcher (two_consumed [Inl (TransportError ''reset'')]) \<and>
      scripted (fstate (two_consumed [Inl (TransportError ''reset'')]))
              (offset (two_consumed [Inl (TransportError ''reset'')]))
              (limit (two_consumed [Inl (TransportError ''reset'')]))
            = Some (Inl (TransportError ''reset''), []) \<and>
      reply_error Inr (Inl (TransportError ''reset'')) = Some (TransportError ''reset'')"
    using pulls_two_then_fail c1 f1 by (intro conjI) simp_all
  have a2: "collect (Suc (Suc (Suc 0))) scripted strict_decode (NewIterator 0 two_then_garbled []) []
        = Some ([1, 2], garbled_it)
      \<and> Err garbled_it = Some (TransformError (UnmarshalError ''zero''))"
    using collect_two_then_garbled e2 by (intro conjI)
  have t2: "take_loop (nat 3) scripted strict_decode (NewIterator 0 two_then_garbled []) []
        = Some ([1, 2], garbled_it)
      \<and> Err garbled_it = Some (TransformError (UnmarshalError ''zero''))"
    using take_two_then_garbled e2 by (intro conjI)
  have p2: "pulls (Suc (Suc 0)) scripted strict_decode (NewIterator 0 two_then_garbled [])
        = Some ([(True, 1), (True, 2)], two_consumed [Inr ([0], None)]) \<and>
      (\<forall>ob \<in> set [(True, 1::nat), (True, 2)]. fst ob) \<and>
      calls_fetcher (two_consumed [Inr ([0::nat], None)]) \<and>
      scripted (fstate (two_consumed [Inr ([0::nat], None)]))
              (offset (two_consumed [Inr ([0::nat], None)]))
              (limit (two_consumed [Inr ([0::nat], None)]))
            = Some (Inr ([0], None), []) \<and>
      reply_error strict_decode (Inr ([0], None)) = Some (TransformError (UnmarshalError ''zero''))"
    using pulls_two_then_garbled c2 f2 r2 by (intro conjI) simp_all
  note fetch_error = fetch_case[THEN conjunct1, THEN mp, OF a1]
    fetch_case[THEN conjunct2, THEN conjunct1, THEN mp, OF t1]
    fetch_case[THEN conjunct2, THEN conjunct2, THEN mp, OF p1]
  note decode_error = decode_case[THEN conjunct1, THEN mp, OF a2]
    decode_case[THEN conjunct2, THEN conjunct1, THEN mp, OF t2]
    decode_case[THEN conjunct2, THEN conjunct2, THEN mp, OF p2]
  from fetch_error decode_error collect_two_then_fail take_two_then_fail pulls_two_then_fail
    collect_two_then_garbled pulls_two_then_garbled r2
  show ?thesis by (intro conjI) (simp_all del: collect.simps take_loop.simps pulls.simps)
qed

subsection \<open>Draining a fixed collection\<close>

lemma wrap64_id:
  "- 9223372036854775808 \<le> x \<Longrightarrow> x \<le> 9223372036854775807 \<Longrightarrow> wrap64 x = x"
  by (simp add: wrap64_def)

lemma createFetcher_end:
  assumes "off \<ge> int (length allItems)"
  shows "createFetcher marshal allItems u off lim =
    Some (Inr (marshal [], Some \<lparr>Total' = int (length allItems), Limit = lim, Offset = off\<rparr>), u)"
  using assms by (simp add: createFetcher_def Let_def)

lemma createFetcher_page:
  assumes "0 \<le> off" "off < int (length allItems)" "1 \<le> lim" "off + lim \<le> 9223372036854775807"
  shows "createFetcher marshal allItems u off lim =
    Some (Inr (marshal (take (nat lim) (drop (nat off) allItems)),
               Some \<lparr>Total' = int (length allItems), Limit = lim, Offset = off\<rparr>), u)"
proof -
  have w: "wrap64 (off + lim) = off + lim"
    using assms by (intro wrap64_id) simp_all
  show ?thesis
  proof (cases "off + lim > int (length allItems)")
    case True
    have "take (nat (int (length allItems) - off)) (drop (nat off) allItems)
        = take (nat lim) (drop (nat off) allItems)"
      using True assms by simp
    with True assms show ?thesis by (simp add: createFetcher_def Let_def w)
  next
    case False
    with assms show ?thesis by (simp add: createFetcher_def Let_def w)
  qed
qed

lemma createFetcher_serves:
  assumes rt: "\<forall>ys. transformer (marshal ys) = Inr ys"
    and l1: "1 \<le> lim" and bound: "int (length allItems) + lim \<le> 9223372036854775807"
  shows "\<forall>s off. 0 \<le> off \<and> off \<le> int (length allItems) \<longrightarrow>
           (\<exists>data p s'. createFetcher marshal allItems s off lim = Some (Inr (data, Some p), s') \<and>
              Total' p = int (length allItems) \<and>
              transformer data = Inr (take (nat lim) (drop (nat off) allItems)))"
proof (intro allI impI, elim conjE)
  fix s :: unit and off :: int
  assume o0: "0 \<le> off" and oN: "off \<le> int (length allItems)"
  show "\<exists>data p s'. createFetcher marshal allItems s off lim = Some (Inr (data, Some p), s') \<and>
              Total' p = int (length allItems) \<and>
              transformer data = Inr (take (nat lim) (drop (nat off) allItems))"
  proof (cases "off = int (length allItems)")
    case True
    then have "createFetcher marshal allItems s off lim =
      Some (Inr (marshal [], Some \<lparr>Total' = int (length allItems), Limit = lim, Offset = off\<rparr>), s)"
      by (intro createFetcher_end) simp
    moreover have "take (nat lim) (drop (nat off) allItems) = []" using True by simp
    ultimately show ?thesis by (simp add: rt[rule_format])
  next
    case False
    with oN have lt: "off < int (length allItems)" by simp
    from lt bound have "off + lim \<le> 9223372036854775807" by simp
    from createFetcher_page[OF o0 lt l1 this, of marshal s] show ?thesis
      by (simp add: rt[rule_format])
  qed
qed

lemma drain_stop:
  assumes sv: "\<forall>s off. 0 \<le> off \<and> off \<le> int (length allItems) \<longrightarrow>
           (\<exists>data p s'. fetcher s off lim = Some (Inr (data, Some p), s') \<and>
              Total' p = int (length allItems) \<and>
              transformer data = Inr (take (nat lim) (drop (nat off) allItems)))"
    and lim: "limit it = lim"
    and inv: "drain_inv allItems it" and r: "remaining allItems it = []"
  shows "\<exists>it'. Next fetcher transformer it = Some (False, it') \<and> err it' = None"
proof -
  from inv have ns: "\<not> (done' it \<or> err it \<noteq> None)" by (simp add: drain_inv_def)
  show ?thesis
  proof (cases "total' it \<ge> 0 \<and> count it \<ge> total' it")
    case True
    from Next_total_reached[OF ns True, of fetcher transformer] inv show ?thesis
      by (simp add: drain_inv_def)
  next
    case nt: False
    from r have pi: "pageIndex it \<ge> length (page it)" by (simp add: remaining_def)
    note nx = Next_fetch[OF ns nt pi, of fetcher transformer]
    from r have "length allItems \<le> nat (offset it)" by (simp add: remaining_def)
    with inv have off: "offset it = int (length allItems)"
      unfolding drain_inv_def by linarith
    show ?thesis
    proof (cases "total' it \<ge> 0 \<and> offset it \<ge> total' it")
      case True
      from fetchNextPage_capped[OF disjI2, OF True, of fetcher transformer] nx inv show ?thesis
        by (simp add: drain_inv_def)
    next
      case g2: False
      from inv have g1: "\<not> (maxPages it > 0 \<and> pagesLoaded it \<ge> maxPages it)"
        by (simp add: drain_inv_def)
      from inv have "0 \<le> offset it \<and> offset it \<le> int (length allItems)"
        by (simp add: drain_inv_def)
      with sv obtain data p s' where
        f: "fetcher (fstate it) (offset it) lim = Some (Inr (data, Some p), s')"
        and d: "transformer data = Inr (take (nat lim) (drop (nat (offset it)) allItems))"
        by blast
      from d off have d': "transformer data = Inr []" by simp
      have "fetchNextPage fetcher transformer it = Some (absorb transformer it (Inr (data, Some p)) s')"
        using f lim by (simp add: fetchNextPage_uncapped[OF g1 g2])
      with nx inv d' show ?thesis by (simp add: absorb_def with_reply_def drain_inv_def)
    qed
  qed
qed

lemma drain_step:
  assumes sv: "\<forall>s off. 0 \<le> off \<and> off \<le> int (length allItems) \<longrightarrow>
           (\<exists>data p s'. fetcher s off lim = Some (Inr (data, Some p), s') \<and>
              Total' p = int (length allItems) \<and>
              transformer data = Inr (take (nat lim) (drop (nat off) allItems)))"
    and lim: "limit it = lim"
    and inv: "drain_inv allItems it" and r: "remaining allItems it = x # rest"
  shows "\<exists>it'. Next fetcher transformer it = Some (True, it') \<and>
           Item it' = x \<and> limit it' = lim \<and> drain_inv allItems it' \<and> remaining allItems it' = rest"
proof -
  from inv have ns: "\<not> (done' it \<or> err it \<noteq> None)" by (simp add: drain_inv_def)
  from inv r have nt: "\<not> (total' it \<ge> 0 \<and> count it \<ge> total' it)"
    by (auto simp: drain_inv_def)
  show ?thesis
  proof (cases "pageIndex it \<ge> length (page it)")
    case False
    then have lt: "pageIndex it < length (page it)" by simp
    have d: "drop (pageIndex it) (page it) = page it ! pageIndex it # drop (Suc (pageIndex it)) (page it)"
      using lt by (simp add: Cons_nth_drop_Suc)
    with r have x: "page it ! pageIndex it = x"
      and rest: "drop (Suc (pageIndex it)) (page it) @ drop (nat (offset it)) allItems = rest"
      by (simp_all add: remaining_def)
    from Next_in_page[OF ns nt False, of fetcher transformer] inv x rest r lt lim show ?thesis
      by (simp add: Item_def drain_inv_def remaining_def)
  next
    case pi: True
    note nx = Next_fetch[OF ns nt pi, of fetcher transformer]
    from pi r have dr: "drop (nat (offset it)) allItems = x # rest" by (simp add: remaining_def)
    then have "\<not> length allItems \<le> nat (offset it)" by auto
    moreover from inv have o0: "0 \<le> offset it" and l1: "1 \<le> limit it"
      by (simp_all add: drain_inv_def)
    ultimately have lt: "offset it < int (length allItems)" by linarith
    from inv lt have g2: "\<not> (total' it \<ge> 0 \<and> offset it \<ge> total' it)" by (auto simp: drain_inv_def)
    from inv have g1: "\<not> (maxPages it > 0 \<and> pagesLoaded it \<ge> maxPages it)"
      by (simp add: drain_inv_def)
    obtain k where k: "nat (limit it) = Suc k" using l1 by (cases "nat (limit it)") simp_all
    have pg: "take (nat (limit it)) (drop (nat (offset it)) allItems) = x # take k rest"
      by (simp add: dr k)
    from o0 lt have "0 \<le> offset it \<and> offset it \<le> int (length allItems)" by simp
    with sv obtain data p s' where
      f: "fetcher (fstate it) (offset it) lim = Some (Inr (data, Some p), s')"
      and tp: "Total' p = int (length allItems)"
      and d: "transformer data = Inr (take (nat lim) (drop (nat (offset it)) allItems))"
      by blast
    from d pg lim have d': "transformer data = Inr (x # take k rest)" by simp
    have fn: "fetchNextPage fetcher transformer it = Some (absorb transformer it (Inr (data, Some p)) s')"
      using f lim by (simp add: fetchNextPage_uncapped[OF g1 g2])
    have dd: "drop (nat (offset it + (1 + int (length (take k rest))))) allItems = drop (length (take k rest)) rest"
    proof -
      have "nat (offset it + (1 + int (length (take k rest)))) = Suc (length (take k rest)) + nat (offset it)"
        using o0 by simp
      then have "drop (nat (offset it + (1 + int (length (take k rest))))) allItems
        = drop (Suc (length (take k rest))) (drop (nat (offset it)) allItems)"
        by (simp only: drop_drop)
      then show ?thesis by (simp add: dr)
    qed
    have rest_eq: "take k rest @ drop (length (take k rest)) rest = rest"
      by (cases "k \<le> length rest") (simp_all add: min_def)
    have len: "int (length allItems) = offset it + int (length (x # rest))"
    proof -
      have "length (drop (nat (offset it)) allItems) = length (x # rest)" using dr by simp
      then show ?thesis using o0 lt by simp
    qed
    have bound: "offset it + (1 + int (length (take k rest))) \<le> int (length allItems)"
      using len by simp
    from fn nx inv r pi dd rest_eq bound o0 d' tp lim show ?thesis
      by (simp add: absorb_def with_reply_def Item_def drain_inv_def remaining_def)
  qed
qed

lemma collect_drain:
  assumes sv: "\<forall>s off. 0 \<le> off \<and> off \<le> int (length allItems) \<longrightarrow>
           (\<exists>data p s'. fetcher s off lim = Some (Inr (data, Some p), s') \<and>
              Total' p = int (length allItems) \<and>
              transformer data = Inr (take (nat lim) (drop (nat off) allItems)))"
  shows "limit it = lim \<Longrightarrow> drain_inv allItems it \<Longrightarrow> length (remaining allItems it) < fuel \<Longrightarrow>
    \<exists>it'. collect fuel fetcher transformer it acc
             = Some (acc @ remaining allItems it, it') \<and> err it' = None"
proof (induction fuel arbitrary: it acc)
  case 0
  then show ?case by simp
next
  case (Suc n)
  show ?case
  proof (cases "remaining allItems it")
    case Nil
    from drain_stop[where fetcher=fetcher and transformer=transformer, OF sv Suc.prems(1) Suc.prems(2) Nil] Nil
    show ?thesis by auto
  next
    case (Cons x rest)
    from drain_step[where fetcher=fetcher and transformer=transformer, OF sv Suc.prems(1) Suc.prems(2) Cons]
    obtain it1 where
      nx: "Next fetcher transformer it = Some (True, it1)"
      and x: "Item it1 = x" and l1: "limit it1 = lim"
      and inv1: "drain_inv allItems it1" and r1: "remaining allItems it1 = rest"
      by blast
    from Suc.prems(3) Cons r1 have "length (remaining allItems it1) < n" by simp
    from Suc.IH[OF l1 inv1 this, of "acc @ [x]"] nx x r1 Cons show ?thesis by simp
  qed
qed

lemma All_drain:
  assumes sv: "\<forall>s off. 0 \<le> off \<and> off \<le> int (length allItems) \<longrightarrow>
           (\<exists>data p s'. fetcher s off lim = Some (Inr (data, Some p), s') \<and>
              Total' p = int (length allItems) \<and>
              transformer data = Inr (take (nat lim) (drop (nat off) allItems)))"
    and lim: "limit it = lim"
    and inv: "drain_inv allItems it" and fuel: "length (remaining allItems it) < fuel"
  shows "map_option (\<lambda>(r, it'). (r, Err it')) (All' fuel fetcher transformer it)
           = Some ((remaining allItems it, None), None)"
proof -
  from collect_drain[where fetcher=fetcher and transformer=transformer, OF sv lim inv fuel, of "[]"]
  obtain it' where "collect fuel fetcher transformer it [] = Some (remaining allItems it, it')"
    and "err it' = None" by auto
  then show ?thesis by (simp add: All'_def Err_def)
qed

lemma NewIterator_drain:
  assumes sv: "\<forall>s off'. 0 \<le> off' \<and> off' \<le> int (length allItems) \<longrightarrow>
       (\<exists>data p s'. fetcher s off' lim = Some (Inr (data, Some p), s') \<and>
          Total' p = int (length allItems) \<and>
          transformer data = Inr (take (nat lim) (drop (nat off') allItems)))"
    and o: "last (0 # offsets_of opts) = off" and l: "last (100 # limits_of opts) = lim"
    and cap: "last (0 # maxPages_of opts) \<le> 0"
    and o0: "0 \<le> off" and oN: "off \<le> int (length allItems)" and l1: "1 \<le> lim"
    and fuel: "length allItems - nat off < fuel"
  shows "offset (NewIterator zero s0 opts) = off \<and>
          map_option (\<lambda>(r, it'). (r, Err it'))
            (All' fuel fetcher transformer (NewIterator zero s0 opts))
          = Some ((drop (nat off) allItems, None), None)"
proof -
  note v = NewIterator_value[of zero s0 opts]
  have fo: "offset (NewIterator zero s0 opts) = off" using o by (simp add: v)
  have lm: "limit (NewIterator zero s0 opts) = lim" using l by (simp add: v)
  have mp: "maxPages (NewIterator zero s0 opts) \<le> 0" using cap by (simp add: v)
  have fr: "total' (NewIterator zero s0 opts) = -1" "page (NewIterator zero s0 opts) = []"
    "pageIndex (NewIterator zero s0 opts) = 0" "count (NewIterator zero s0 opts) = 0"
    "\<not> done' (NewIterator zero s0 opts)" "err (NewIterator zero s0 opts) = None"
    by (simp_all add: NewIterator_fresh)
  have r: "remaining allItems (NewIterator zero s0 opts) = drop (nat off) allItems"
    using fr fo by (simp add: remaining_def)
  have "drain_inv allItems (NewIterator zero s0 opts)"
    unfolding drain_inv_def r using fr fo lm mp o0 oN l1 by simp
  from All_drain[where fetcher=fetcher and transformer=transformer, OF sv lm this] fuel r fo
  show ?thesis by simp
qed

lemma WithLimit_drain:
  assumes sv: "\<forall>s off. 0 \<le> off \<and> off \<le> int (length allItems) \<longrightarrow>
       (\<exists>data p s'. fetcher s off l = Some (Inr (data, Some p), s') \<and>
          Total' p = int (length allItems) \<and>
          transformer data = Inr (take (nat l) (drop (nat off) allItems)))"
    and l1: "1 \<le> l" and fuel: "length allItems < fuel"
  shows "map_option (\<lambda>(r, it'). (r, Err it'))
            (All' fuel fetcher transformer (NewIterator zero s0 [WithLimit l]))
          = Some ((allItems, None), None)"
  using NewIterator_drain[where fetcher=fetcher and transformer=transformer and opts="[WithLimit l]"
      and off=0 and lim=l and fuel=fuel and zero=zero and ?s0.0=s0, OF sv] l1 fuel
  by simp

lemma createFetcher_serves_example:
  "\<forall>s off. 0 \<le> off \<and> off \<le> int (length [1, 2, 3, 4, 5 :: nat]) \<longrightarrow>
     (\<exists>data p s'. createFetcher id [1, 2, 3, 4, 5 :: nat] s off 2 = Some (Inr (data, Some p), s') \<and>
        Total' p = int (length [1, 2, 3, 4, 5 :: nat]) \<and>
        Inr data = (Inr (take (nat 2) (drop (nat off) [1, 2, 3, 4, 5 :: nat])) :: error + nat list))"
  using createFetcher_serves[where transformer=Inr and marshal=id and lim=2
      and allItems="[1, 2, 3, 4, 5 :: nat]"]
  by simp

text \<open>
  Claim C4: take any fetch function backed by a fixed collection \<open>allItems\<close> of \<open>N\<close>
  items: called, in whatever state, with an offset in \<open>[0, N]\<close> and the page size \<open>l\<close>
  of the iterator, it returns the total \<open>N\<close> and data that the transformer decodes to
  the items \<open>[offset, min(offset+l, N))\<close> of \<open>allItems\<close>. For every page size \<open>l\<close> with
  \<open>1 \<le> l \<le> N\<close>, \<open>All\<close> on a new iterator with that page size returns (with more than
  \<open>N\<close> units of fuel, so: it does return) exactly \<open>allItems\<close>, in order, with a nil
  error, and \<open>Err()\<close> is nil afterwards. This holds in particular for the fetcher of the
  tests (\<open>createFetcher\<close>) with a JSON encoding that decodes back to what was encoded,
  as long as \<open>N + l\<close> does not exceed the largest \<open>int\<close>, so that its sum
  \<open>offset + limit\<close> cannot wrap around.
\<close>

theorem exhaustive_drain:
  "((\<forall>s off. 0 \<le> off \<and> off \<le> int (length allItems) \<longrightarrow>
       (\<exists>data p s'. fetcher s off l = Some (Inr (data, Some p), s') \<and>
          Total' p = int (length allItems) \<and>
          transformer data = Inr (take (nat l) (drop (nat off) allItems)))) \<and>
    1 \<le> l \<and> l \<le> int (length allItems) \<and> length allItems < fuel
      \<longrightarrow> map_option (\<lambda>(r, it'). (r, Err it'))
            (All' fuel fetcher transformer (NewIterator zero s0 [WithLimit l]))
          = Some ((allItems, None), None)) \<and>
   ((\<forall>ys. decode (marshal ys) = Inr ys) \<and>
    1 \<le> l \<and> l \<le> int (length allItems) \<and>
    int (length allItems) + l \<le> 9223372036854775807 \<and> length allItems < fuel
      \<longrightarrow> map_option (\<lambda>(r, it'). (r, Err it'))
            (All' fuel (createFetcher marshal allItems) decode (NewIterator zero () [WithLimit l]))
          = Some ((allItems, None), None))"
proof -
  have general: "(\<forall>s off. 0 \<le> off \<and> off \<le> int (length allItems) \<longrightarrow>
       (\<exists>data p s'. fetcher s off l = Some (Inr (data, Some p), s') \<and>
          Total' p = int (length allItems) \<and>
          transformer data = Inr (take (nat l) (drop (nat off) allItems)))) \<and>
    1 \<le> l \<and> l \<le> int (length allItems) \<and> length allItems < fuel
      \<longrightarrow> map_option (\<lambda>(r, it'). (r, Err it'))
            (All' fuel fetcher transformer (NewIterator zero s0 [WithLimit l]))
          = Some ((allItems, None), None)"
    using WithLimit_drain[where fetcher=fetcher and transformer=transformer] by blast
  have fixture: "(\<forall>ys. decode (marshal ys) = Inr ys) \<and>
    1 \<le> l \<and> l \<le> int (length allItems) \<and>
    int (length allItems) + l \<le> 9223372036854775807 \<and> length allItems < fuel
      \<longrightarrow> map_option (\<lambda>(r, it'). (r, Err it'))
            (All' fuel (createFetcher marshal allItems) decode (NewIterator zero () [WithLimit l]))
          = Some ((allItems, None), None)"
  proof (rule impI, elim conjE)
    assume rt: "\<forall>ys. decode (marshal ys) = Inr ys" and l1: "1 \<le> l"
      and b: "int (length allItems) + l \<le> 9223372036854775807" and fuel: "length allItems < fuel"
    from WithLimit_drain[where fetcher="createFetcher marshal allItems" and transformer=decode,
        OF createFetcher_serves[where transformer=decode and marshal=marshal, OF rt l1 b] l1 fuel]
    show "map_option (\<lambda>(r, it'). (r, Err it'))
            (All' fuel (createFetcher marshal allItems) decode (NewIterator zero () [WithLimit l]))
          = Some ((allItems, None), None)" .
  qed
  from general fixture show ?thesis by (rule conjI)
qed

theorem exhaustive_drain_witness:
  "createFetcher id [1, 2, 3, 4, 5 :: nat] () 0 2
     = Some (Inr ([1, 2], Some \<lparr>Total' = 5, Limit = 2, Offset = 0\<rparr>), ()) \<and>
   createFetcher id [1, 2, 3, 4, 5 :: nat] () 4 2
     = Some (Inr ([5], Some \<lparr>Total' = 5, Limit = 2, Offset = 4\<rparr>), ()) \<and>
   createFetcher id [1, 2, 3, 4, 5 :: nat] () 5 2
     = Some (Inr ([], Some \<lparr>Total' = 5, Limit = 2, Offset = 5\<rparr>), ()) \<and>
   map_option (\<lambda>(r, it'). (r, Err it'))
     (All' 6 (createFetcher id [1, 2, 3, 4, 5 :: nat]) Inr (NewIterator 0 () [WithLimit 2]))
   = Some (([1, 2, 3, 4, 5], None), None)"
proof -
  note inst = exhaustive_drain [where allItems="[1, 2, 3, 4, 5 :: nat]"
      and fetcher="createFetcher id [1, 2, 3, 4, 5 :: nat]" and transformer=Inr and l=2
      and fuel=6 and zero=0 and ?s0.0="()" and marshal=id and decode=Inr]
  have h1: "(\<forall>s off. 0 \<le> off \<and> off \<le> int (length [1, 2, 3, 4, 5 :: nat]) \<longrightarrow>
       (\<exists>data p s'. createFetcher id [1, 2, 3, 4, 5 :: nat] s off 2 = Some (Inr (data, Some p), s') \<and>
          Total' p = int (length [1, 2, 3, 4, 5 :: nat]) \<and>
          Inr data = (Inr (take (nat 2) (drop (nat off) [1, 2, 3, 4, 5 :: nat])) :: error + nat list))) \<and>
    1 \<le> (2::int) \<and> 2 \<le> int (length [1, 2, 3, 4, 5 :: nat]) \<and> length [1, 2, 3, 4, 5 :: nat] < 6"
    using createFetcher_serves_example by (intro conjI) simp_all
  have h2: "(\<forall>ys. (Inr (id ys) :: error + nat list) = Inr ys) \<and>
    1 \<le> (2::int) \<and> 2 \<le> int (length [1, 2, 3, 4, 5 :: nat]) \<and>
    int (length [1, 2, 3, 4, 5 :: nat]) + 2 \<le> 9223372036854775807 \<and> length [1, 2, 3, 4, 5 :: nat] < 6"
    by simp
  have pages: "createFetcher id [1, 2, 3, 4, 5 :: nat] () 0 2
     = Some (Inr ([1, 2], Some \<lparr>Total' = 5, Limit = 2, Offset = 0\<rparr>), ()) \<and>
   createFetcher id [1, 2, 3, 4, 5 :: nat] () 4 2
     = Some (Inr ([5], Some \<lparr>Total' = 5, Limit = 2, Offset = 4\<rparr>), ()) \<and>
   createFetcher id [1, 2, 3, 4, 5 :: nat] () 5 2
     = Some (Inr ([], Some \<lparr>Total' = 5, Limit = 2, Offset = 5\<rparr>), ())"
    by (simp add: createFetcher_def wrap64_def Let_def)
  from inst[THEN conjunct1, THEN mp, OF h1] inst[THEN conjunct2, THEN mp, OF h2] pages
  show ?thesis by (intro conjI) simp_all
qed

text \<open>
  Claim C7: over such a fetch function, take a new iterator constructed with any list of
  options whose last \<open>WithOffset\<close> gives the starting offset \<open>o\<close> (\<open>o = 0\<close> when there
  is none), with \<open>0 \<le> o \<le> N\<close>, whose page size (that of the last \<open>WithLimit\<close>, \<open>100\<close>
  when there is none) is at least one, and which has no page cap (no \<open>WithMaxPages\<close>, or
  the last one not positive). The iterator starts at offset \<open>o\<close>, and \<open>All\<close> returns
  (with more than \<open>N - o\<close> units of fuel, so: it does return) exactly the items at the
  positions \<open>[o, N)\<close> of \<open>allItems\<close>, in order, with a nil error, and \<open>Err()\<close> is nil
  afterwards. This holds in particular for the fetcher of the tests (\<open>createFetcher\<close>)
  with a JSON encoding that decodes back to what was encoded, as long as \<open>N\<close> plus the
  page size does not exceed the largest \<open>int\<close>, so that its sum \<open>offset + limit\<close> cannot
  wrap around.
\<close>

theorem offset_resume:
  "((\<forall>s off'. 0 \<le> off' \<and> off' \<le> int (length allItems) \<longrightarrow>
       (\<exists>data p s'. fetcher s off' lim = Some (Inr (data, Some p), s') \<and>
          Total' p = int (length allItems) \<and>
          transformer data = Inr (take (nat lim) (drop (nat off') allItems)))) \<and>
    last (0 # offsets_of opts) = off \<and> last (100 # limits_of opts) = lim \<and>
    last (0 # maxPages_of opts) \<le> 0 \<and>
    0 \<le> off \<and> off \<le> int (length allItems) \<and> 1 \<le> lim \<and> length allItems - nat off < fuel
      \<longrightarrow> offset (NewIterator zero s0 opts) = off \<and>
          map_option (\<lambda>(r, it'). (r, Err it'))
            (All' fuel fetcher transformer (NewIterator zero s0 opts))
          = Some ((drop (nat off) allItems, None), None)) \<and>
   ((\<forall>ys. decode (marshal ys) = Inr ys) \<and>
    last (0 # offsets_of opts) = off \<and> last (100 # limits_of opts) = lim \<and>
    last (0 # maxPages_of opts) \<le> 0 \<and>
    0 \<le> off \<and> off \<le> int (length allItems) \<and> 1 \<le> lim \<and>
    int (length allItems) + lim \<le> 9223372036854775807 \<and> length allItems - nat off < fuel
      \<longrightarrow> offset (NewIterator zero () opts) = off \<and>
          map_option (\<lambda>(r, it'). (r, Err it'))
            (All' fuel (createFetcher marshal allItems) decode (NewIterator zero () opts))
          = Some ((drop (nat off) allItems, None), None))"
proof -
  have general: "(\<forall>s off'. 0 \<le> off' \<and> off' \<le> int (length allItems) \<longrightarrow>
       (\<exists>data p s'. fetcher s off' lim = Some (Inr (data, Some p), s') \<and>
          Total' p = int (length allItems) \<and>
          transformer data = Inr (take (nat lim) (drop (nat off') allItems)))) \<and>
    last (0 # offsets_of opts) = off \<and> last (100 # limits_of opts) = lim \<and>
    last (0 # maxPages_of opts) \<le> 0 \<and>
    0 \<le> off \<and> off \<le> int (length allItems) \<and> 1 \<le> lim \<and> length allItems - nat off < fuel
      \<longrightarrow> offset (NewIterator zero s0 opts) = off \<and>
          map_option (\<lambda>(r, it'). (r, Err it'))
            (All' fuel fetcher transformer (NewIterator zero s0 opts))
          = Some ((drop (nat off) allItems, None), None)"
    using NewIterator_drain[where fetcher=fetcher and transformer=transformer] by blast
  have fixture: "(\<forall>ys. decode (marshal ys) = Inr ys) \<and>
    last (0 # offsets_of opts) = off \<and> last (100 # limits_of opts) = lim \<and>
    last (0 # maxPages_of opts) \<le> 0 \<and>
    0 \<le> off \<and> off \<le> int (length allItems) \<and> 1 \<le> lim \<and>
    int (length allItems) + lim \<le> 9223372036854775807 \<and> length allItems - nat off < fuel
      \<longrightarrow> offset (NewIterator zero () opts) = off \<and>
          map_option (\<lambda>(r, it'). (r, Err it'))
            (All' fuel (createFetcher marshal allItems) decode (NewIterator zero () opts))
          = Some ((drop (nat off) allItems, None), None)"
  proof (rule impI, elim conjE)
    assume rt: "\<forall>ys. decode (marshal ys) = Inr ys"
      and o: "last (0 # offsets_of opts) = off" and l: "last (100 # limits_of opts) = lim"
      and cap: "last (0 # maxPages_of opts) \<le> 0"
      and o0: "0 \<le> off" and oN: "off \<le> int (length allItems)" and l1: "1 \<le> lim"
      and b: "int (length allItems) + lim \<le> 9223372036854775807"
      and fuel: "length allItems - nat off < fuel"
    from NewIterator_drain[where fetcher="createFetcher marshal allItems" and transformer=decode,
        OF createFetcher_serves[where transformer=decode and marshal=marshal, OF rt l1 b]
           o l cap o0 oN l1 fuel]
    show "offset (NewIterator zero () opts) = off \<and>
          map_option (\<lambda>(r, it'). (r, Err it'))
            (All' fuel (createFetcher marshal allItems) decode (NewIterator zero () opts))
          = Some ((drop (nat off) allItems, None), None)" .
  qed
  from general fixture show ?thesis by (rule conjI)
qed

theorem offset_resume_witness:
  "offset (NewIterator (0::nat) () [WithOffset 2, WithLimit 2]) = 2 \<and>
   map_option (\<lambda>(r, it'). (r, Err it'))
     (All' 4 (createFetcher id [1, 2, 3, 4, 5 :: nat]) Inr (NewIterator 0 () [WithOffset 2, WithLimit 2]))
   = Some (([3, 4, 5], None), None)"
proof -
  note inst = offset_resume [where allItems="[1, 2, 3, 4, 5 :: nat]"
      and fetcher="createFetcher id [1, 2, 3, 4, 5 :: nat]" and transformer=Inr and lim=2
      and off=2 and opts="[WithOffset 2, WithLimit 2]"
      and fuel=4 and zero=0 and ?s0.0="()" and marshal=id and decode=Inr]
  have h1: "(\<forall>s off'. 0 \<le> off' \<and> off' \<le> int (length [1, 2, 3, 4, 5 :: nat]) \<longrightarrow>
       (\<exists>data p s'. createFetcher id [1, 2, 3, 4, 5 :: nat] s off' 2 = Some (Inr (data, Some p), s') \<and>
          Total' p = int (length [1, 2, 3, 4, 5 :: nat]) \<and>
          Inr data = (Inr (take (nat 2) (drop (nat off') [1, 2, 3, 4, 5 :: nat])) :: error + nat list))) \<and>
    last (0 # offsets_of [WithOffset 2, WithLimit 2]) = 2 \<and>
    last (100 # limits_of [WithOffset 2, WithLimit 2]) = 2 \<and>
    last (0 # maxPages_of [WithOffset 2, WithLimit 2]) \<le> 0 \<and>
    0 \<le> (2::int) \<and> 2 \<le> int (length [1, 2, 3, 4, 5 :: nat]) \<and> 1 \<le> (2::int) \<and>
    length [1, 2, 3, 4, 5 :: nat] - nat 2 < 4"
    using createFetcher_serves_example by (intro conjI) simp_all
  have h2: "(\<forall>ys. (Inr (id ys) :: error + nat list) = Inr ys) \<and>
    last (0 # offsets_of [WithOffset 2, WithLimit 2]) = 2 \<and>
    last (100 # limits_of [WithOffset 2, WithLimit 2]) = 2 \<and>
    last (0 # maxPages_of [WithOffset 2, WithLimit 2]) \<le> 0 \<and>
    0 \<le> (2::int) \<and> 2 \<le> int (length [1, 2, 3, 4, 5 :: nat]) \<and> 1 \<le> (2::int) \<and>
    int (length [1, 2, 3, 4, 5 :: nat]) + 2 \<le> 9223372036854775807 \<and>
    length [1, 2, 3, 4, 5 :: nat] - nat 2 < 4"
    by simp
  from inst[THEN conjunct1, THEN mp, OF h1] inst[THEN conjunct2, THEN mp, OF h2]
  show ?thesis by (intro conjI) simp_all
qed
section \<open>Properties of the exports\<close>

declare WaitForExport.simps [simp del]

lemma interval_idem: "interval (interval p) = interval p"
  by (simp add: interval_def)

lemma poll_status_valid:
  assumes "exportType \<in> {''assets'', ''vulns'', ''compliance''}"
  shows "poll_status exportType uuid w = Some (client_GetStatus exportType uuid w)"
  using assms
  by (auto simp: poll_status_def AssetsExportStatus_def VulnsExportStatus_def ComplianceExportStatus_def)

lemma WaitForExport_round:
  assumes ty: "exportType \<in> {''assets'', ''vulns'', ''compliance''}"
    and st: "status_replies w = r # later"
  shows "WaitForExport exportType uuid pollInterval w =
     (let w1 = w\<lparr>status_replies := later,
                 requests := requests w @ [GetStatus exportType uuid]\<rparr>
      in case r of
           Inl e \<Rightarrow> Some (Inl e, w1)
         | Inr s \<Rightarrow>
             if Status s = ''FINISHED'' then Some (Inr s, w1)
             else if Status s = ''CANCELLED''
               then Some (Inl (ExportError exportType uuid ''export cancelled''), w1)
             else if Status s = ''ERROR''
               then Some (Inl (ExportError exportType uuid ''export failed''), w1)
             else (case select_wait (interval pollInterval) w1 of
                     None \<Rightarrow> None
                   | Some (CtxDone e, w2) \<Rightarrow> Some (Inl (ContextError e), w2)
                   | Some (TimerFired, w2) \<Rightarrow>
                       WaitForExport exportType uuid (interval pollInterval) w2))"
  apply (subst WaitForExport.simps)
  apply (simp only: poll_status_valid[OF ty] interval_def[symmetric])
  apply (simp add: client_GetStatus_def st Let_def split: sum.splits)
  done

lemma WaitForExport_interval:
  "WaitForExport exportType uuid (interval pollInterval) w = WaitForExport exportType uuid pollInterval w"
  apply (subst WaitForExport.simps)
  apply (subst (2) WaitForExport.simps)
  apply (simp only: interval_def[symmetric] interval_idem)
  done

lemma WaitForExport_pending:
  assumes ty: "exportType \<in> {''assets'', ''vulns'', ''compliance''}"
  shows "status_replies w = map Inr pending @ rs \<Longrightarrow>
     \<forall>s \<in> set pending. Status s \<notin> {''FINISHED'', ''CANCELLED'', ''ERROR''} \<Longrightarrow>
     wait_signals w = replicate (length pending) TimerFired @ sigs \<Longrightarrow>
     WaitForExport exportType uuid pollInterval w =
       WaitForExport exportType uuid pollInterval
         (w\<lparr>status_replies := rs, wait_signals := sigs,
            requests := requests w @ rounds exportType uuid pollInterval (length pending)\<rparr>)"
proof (induction pending arbitrary: w pollInterval)
  case Nil
  then have "w\<lparr>status_replies := rs, wait_signals := sigs,
       requests := requests w @ rounds exportType uuid pollInterval (length ([]::ExportStatus list))\<rparr> = w"
    by (cases w) (simp add: rounds_def)
  then show ?case by simp
next
  case (Cons s pending)
  let ?w2 = "w\<lparr>status_replies := map Inr pending @ rs,
               requests := requests w @ [GetStatus exportType uuid],
               wait_signals := replicate (length pending) TimerFired @ sigs,
               requests := requests w @ [GetStatus exportType uuid, PollWait (interval pollInterval)]\<rparr>"
  have st: "status_replies w = Inr s # (map Inr pending @ rs)" using Cons.prems(1) by simp
  have ns: "Status s \<noteq> ''FINISHED''" "Status s \<noteq> ''CANCELLED''" "Status s \<noteq> ''ERROR''"
    using Cons.prems(2) by simp_all
  have step: "WaitForExport exportType uuid pollInterval w =
      WaitForExport exportType uuid (interval pollInterval) ?w2"
    using Cons.prems(3) ns
    by (simp add: WaitForExport_round[OF ty st] select_wait_def)
  have "WaitForExport exportType uuid pollInterval ?w2 =
     WaitForExport exportType uuid pollInterval
       (?w2\<lparr>status_replies := rs, wait_signals := sigs,
          requests := requests ?w2 @ rounds exportType uuid pollInterval (length pending)\<rparr>)"
    using Cons.prems(2) by (intro Cons.IH) simp_all
  with step show ?case by (simp add: WaitForExport_interval rounds_def)
qed

text \<open>
  Claim C5: let the backend answer the first polls of \<open>WaitForExport\<close> (for a valid
  export type) with statuses \<open>pending\<close> that are none of FINISHED, CANCELLED, ERROR,
  the timer firing after each, and let \<open>r\<close> be its next answer. If \<open>r\<close> is a transport
  error, \<open>WaitForExport\<close> returns that very error and the failed poll is its last
  request (no retry). If \<open>r\<close> is a FINISHED status it returns that status. If \<open>r\<close> is
  CANCELLED or ERROR it returns an \<open>ExportError\<close> for this export type and job, with the
  message "export cancelled" or "export failed" respectively. If \<open>r\<close> is again a running
  status and the caller's context is done during the wait that follows, it returns the
  context's error. This holds after any number of pending rounds, so the cancellation
  signal is looked at in every round.
\<close>

theorem WaitForExport_classifies:
  assumes ty: "exportType \<in> {''assets'', ''vulns'', ''compliance''}"
    and st: "status_replies w = map Inr pending @ r # later"
    and pend: "\<forall>s \<in> set pending. Status s \<notin> {''FINISHED'', ''CANCELLED'', ''ERROR''}"
    and sg: "wait_signals w = replicate (length pending) TimerFired @ sigs"
  shows "(\<forall>e. r = Inl e \<longrightarrow>
            WaitForExport exportType uuid pollInterval w
              = Some (Inl e, after_polls exportType uuid pollInterval (length pending) later sigs w)) \<and>
         (\<forall>s. r = Inr s \<longrightarrow> Status s = ''FINISHED'' \<longrightarrow>
            WaitForExport exportType uuid pollInterval w
              = Some (Inr s, after_polls exportType uuid pollInterval (length pending) later sigs w)) \<and>
         (\<forall>s. r = Inr s \<longrightarrow> Status s = ''CANCELLED'' \<longrightarrow>
            WaitForExport exportType uuid pollInterval w
              = Some (Inl (ExportError exportType uuid ''export cancelled''),
                      after_polls exportType uuid pollInterval (length pending) later sigs w)) \<and>
         (\<forall>s. r = Inr s \<longrightarrow> Status s = ''ERROR'' \<longrightarrow>
            WaitForExport exportType uuid pollInterval w
              = Some (Inl (ExportError exportType uuid ''export failed''),
                      after_polls exportType uuid pollInterval (length pending) later sigs w)) \<and>
         (\<forall>s c sigs'. r = Inr s \<longrightarrow> Status s \<notin> {''FINISHED'', ''CANCELLED'', ''ERROR''} \<longrightarrow>
            sigs = CtxDone c # sigs' \<longrightarrow>
            WaitForExport exportType uuid pollInterval w
              = Some (Inl (ContextError c),
                      (after_polls exportType uuid pollInterval (length pending) later sigs w)
                        \<lparr>wait_signals := sigs',
                         requests := requests w @ rounds exportType uuid pollInterval (length pending)
                                       @ [GetStatus exportType uuid, PollWait (interval pollInterval)]\<rparr>))"
proof -
  let ?wn = "w\<lparr>status_replies := r # later, wait_signals := sigs,
               requests := requests w @ rounds exportType uuid pollInterval (length pending)\<rparr>"
  have p: "WaitForExport exportType uuid pollInterval w = WaitForExport exportType uuid pollInterval ?wn"
    by (rule WaitForExport_pending[OF ty st pend sg])
  have stn: "status_replies ?wn = r # later" by simp
  note rd = WaitForExport_round[OF ty stn, of uuid pollInterval]
  show ?thesis
    unfolding p rd
    by (auto simp: after_polls_def select_wait_def Let_def)
qed

theorem WaitForExport_classifies_witness:
  "map_option fst (WaitForExport ''assets'' ''u1'' 0 job_fails)
     = Some (Inl (ExportError ''assets'' ''u1'' ''export failed'')) \<and>
   map_option (requests \<circ> snd) (WaitForExport ''assets'' ''u1'' 0 job_fails)
     = Some [GetStatus ''assets'' ''u1'', PollWait 5000000000, GetStatus ''assets'' ''u1''] \<and>
   map_option fst (WaitForExport ''vulns'' ''u2'' 0 caller_cancels)
     = Some (Inl (ContextError Canceled)) \<and>
   map_option (requests \<circ> snd) (WaitForExport ''vulns'' ''u2'' 0 caller_cancels)
     = Some [GetStatus ''vulns'' ''u2'', PollWait 5000000000, GetStatus ''vulns'' ''u2'',
             PollWait 5000000000]"
  using WaitForExport_classifies [where exportType = "''assets''" and w = job_fails
      and pending = "[\<lparr>Status = ''PROCESSING'', ChunksAvailable = []\<rparr>]"
      and r = "Inr \<lparr>Status = ''ERROR'', ChunksAvailable = []\<rparr>" and later = "[]" and sigs = "[]"
      and uuid = "''u1''" and pollInterval = 0]
    WaitForExport_classifies [where exportType = "''vulns''" and w = caller_cancels
      and pending = "[\<lparr>Status = ''PROCESSING'', ChunksAvailable = []\<rparr>]"
      and r = "Inr \<lparr>Status = ''PROCESSING'', ChunksAvailable = []\<rparr>"
      and later = "[Inr \<lparr>Status = ''FINISHED'', ChunksAvailable = [1]\<rparr>]"
      and sigs = "[CtxDone Canceled]"
      and uuid = "''u2''" and pollInterval = 0]
  by (simp add: job_fails_def caller_cancels_def after_polls_def rounds_def interval_def)

















lemmas export_eval =
  AssetsIterator_fetcher_def VulnsIterator_fetcher_def AssetsExport_def VulnsExport_def
  client_Post_def WaitForExport.simps poll_status_def AssetsExportStatus_def VulnsExportStatus_def
  client_GetStatus_def select_wait_def AssetsExportChunk_def VulnsExportChunk_def client_Download_def
  finished_world_def finished_status_def Let_def








text \<open>
  Claim C1 fails on the code. Over \<open>finished_world\<close> (chunk \<open>1\<close> holds \<open>10, 11, 12\<close>,
  chunk \<open>2\<close> holds \<open>20, 21\<close>) draining the iterator of \<open>AssetsIterator\<close> or of
  \<open>VulnsIterator\<close> returns only \<open>[10, 11]\<close> with a nil error, and chunk \<open>2\<close> is never
  requested: the fetcher reports the number of chunks (\<open>2\<close>) as \<open>Total\<close>, which the
  iterator compares with its count of items.
\<close>

theorem export_iterator_stops_at_chunk_count:
  "map_option (\<lambda>(r, it). (r, requests (snd (fstate it))))
     (All' (Suc (Suc (Suc 0))) (AssetsIterator_fetcher Inr [] None) Inr (AssetsIterator 0 finished_world))
   = Some (([10, 11], None),
       [Post ''assets/export'' 1000, GetStatus ''assets'' ''u1'', PollWait 5000000000,
        GetStatus ''assets'' ''u1'', GetChunk ''assets'' ''u1'' 1]) \<and>
   map_option (\<lambda>(r, it). (r, requests (snd (fstate it))))
     (All' (Suc (Suc (Suc 0))) (VulnsIterator_fetcher [] None) Inr (VulnsIterator (0::nat) finished_world))
   = Some (([10, 11], None),
       [Post ''vulns/export'' 500, GetStatus ''vulns'' ''u1'', PollWait 5000000000,
        GetStatus ''vulns'' ''u1'', GetChunk ''vulns'' ''u1'' 1])"
  by (simp add: All'_def AssetsIterator_def VulnsIterator_def NewIterator_def Next_def
      fetchNextPage_def Item_def export_eval)

end
